theory Spec2Isabelle
  imports Complex_Main "HOL-Library.Log_Nat"
begin

section \<open>Numbers of the source\<close>

text \<open>
  A \<^verbatim>\<open>number\<close> of \<^verbatim>\<open>src/main.ts\<close> is an IEEE double. A finite double is a rational,
  and the model has rationals for numbers; there is no infinity and no NaN in it.
  An arithmetic operation on doubles returns the exact result rounded to 53 significant
  bits, ties to even (\<open>round53\<close>, with the gradual underflow below \<open>2 powi (- 1022)\<close>). The
  operations \<open>dadd\<close>, \<open>dsub\<close>, \<open>dmul\<close> and \<open>ddiv\<close> are used wherever the source multiplies
  or divides, and wherever it adds or subtracts values that are not whole numbers: score
  totals before truncation, tail lengths and tail starts, products with the sample of the
  generator. Positions, the combo and bonus counters, the decay counter and the seed are
  whole numbers far below \<open>2 ^ 53\<close> in play; their sums are exact in doubles as well and are
  written as sums of rationals.
\<close>

definition trunc :: "rat \<Rightarrow> int" where
  \<comment> \<open>rounding towards zero, the first step of the source's \<^verbatim>\<open>~~x\<close>\<close>
  "trunc x = (if 0 \<le> x then \<lfloor>x\<rfloor> else \<lceil>x\<rceil>)"

definition toInt32 :: "rat \<Rightarrow> rat" where
  \<comment> \<open>the source's \<^verbatim>\<open>~~x\<close>: truncate, then wrap into the signed 32-bit range\<close>
  "toInt32 x =
     (let m = trunc x mod 4294967296
      in of_int (if 2147483648 \<le> m then m - 4294967296 else m))"

definition js_rem :: "rat \<Rightarrow> rat \<Rightarrow> rat" where
  \<comment> \<open>the source's \<^verbatim>\<open>x % y\<close> for a divisor other than zero: the sign follows \<open>x\<close>\<close>
  "js_rem x y = x - y * of_int (trunc (x / y))"

definition rne :: "rat \<Rightarrow> int" where
  \<comment> \<open>the nearest integer, the even one of two at the same distance\<close>
  "rne q =
     (let f = \<lfloor>q\<rfloor>; r = q - of_int f
      in if r < 1 / 2 then f else if 1 / 2 < r then f + 1 else if even f then f else f + 1)"

definition expo :: "rat \<Rightarrow> int" where
  \<comment> \<open>for \<open>0 < x\<close>, the \<open>e\<close> with \<open>2 powi e \<le> x < 2 powi (e + 1)\<close>\<close>
  "expo x = (if 1 \<le> x then bitlen \<lfloor>x\<rfloor> - 1 else - bitlen (\<lceil>1 / x\<rceil> - 1))"

definition ulp :: "rat \<Rightarrow> rat" where
  \<comment> \<open>the distance between neighbouring doubles at the magnitude of \<open>x\<close>\<close>
  "ulp x = 2 powi (max (expo \<bar>x\<bar>) (- 1022) - 52)"

definition round53 :: "rat \<Rightarrow> rat" where
  "round53 x = (if x = 0 then 0 else sgn x * of_int (rne (\<bar>x\<bar> / ulp x)) * ulp x)"

definition dadd :: "rat \<Rightarrow> rat \<Rightarrow> rat" where "dadd x y = round53 (x + y)"
definition dsub :: "rat \<Rightarrow> rat \<Rightarrow> rat" where "dsub x y = round53 (x - y)"
definition dmul :: "rat \<Rightarrow> rat \<Rightarrow> rat" where "dmul x y = round53 (x * y)"
definition ddiv :: "rat \<Rightarrow> rat \<Rightarrow> rat" where "ddiv x y = round53 (x / y)"

definition d02 :: rat where
  \<comment> \<open>the literal \<^verbatim>\<open>0.2\<close>\<close>
  "d02 = round53 (2 / 10)"

section \<open>Constants\<close>

definition TICK_UNIT_INCREMENT :: rat where "TICK_UNIT_INCREMENT = 1"
definition TICK_RATE_MS :: rat where "TICK_RATE_MS = 7"
definition POSITION_THRESHOLD :: rat where "POSITION_THRESHOLD = 40"
definition BOTTOM_ROW :: rat where "BOTTOM_ROW = 350"
definition BONUS_NOTES_PERCENTAGE :: rat where "BONUS_NOTES_PERCENTAGE = 90"

section \<open>The random number generator\<close>

text \<open>
  \<^verbatim>\<open>RNG.hash\<close> and \<^verbatim>\<open>RNG.scale\<close> are imported from \<^verbatim>\<open>./util.ts\<close>. Every
  function that calls them takes the two as a parameter.
\<close>

record RNG =
  RNG_hash :: "rat \<Rightarrow> rat"
  RNG_scale :: "rat \<Rightarrow> rat"

section \<open>Data model\<close>

record Tail =
  tailStart :: rat
  tailEnd :: rat
  dead :: bool

text \<open>
  The fields \<^verbatim>\<open>id\<close> and \<^verbatim>\<open>end\<close> of the source are \<open>note_id\<close> and \<open>end_t\<close> here.
  \<^verbatim>\<open>tail: Tail | undefined\<close> is an option. \<open>special\<close> is only ever tested for
  truthiness, so a missing \<open>special\<close> reads as \<open>False\<close>.
\<close>

record Note =
  note_id :: rat
  special :: bool
  visual :: bool
  position :: rat
  column :: rat
  instrumentName :: string
  velocity :: rat
  pitch :: rat
  start :: rat
  end_t :: rat
  tail :: "Tail option"

text \<open>
  The object that \<^verbatim>\<open>ButtonClick.apply\<close> builds for a wrong press has five fields only
  (it is cast to \<^verbatim>\<open>Note\<close>); its instrument is an array read, which is \<^verbatim>\<open>undefined\<close>
  out of range.
\<close>

record WrongNote =
  wrong_instrumentName :: "string option"
  wrong_velocity :: rat
  wrong_pitch :: rat
  wrong_start :: rat
  wrong_end :: rat

datatype Playable = ChartNote Note | WrongPress WrongNote

record State =
  gameEnd :: bool
  allNotesProcessed :: bool
  bonusActive :: rat
  tickInterval :: rat
  hash :: rat
  noteCount :: rat
  scoreGained :: rat
  currentNotes :: "Note list"
  RIPNotes :: "Note list"
  playableNotes :: "Playable list"

definition initialState :: "RNG \<Rightarrow> State" where
  "initialState R =
     \<lparr>gameEnd = False, allNotesProcessed = False, bonusActive = 0, tickInterval = 0,
      hash = RNG_hash R 3847589, noteCount = 0, scoreGained = 0,
      currentNotes = [], RIPNotes = [], playableNotes = []\<rparr>"

section \<open>The physics step\<close>

type_synonym TickSound = "Note option \<times> Note option"

definition updateTail :: "rat \<Rightarrow> rat \<Rightarrow> Tail \<Rightarrow> bool \<Rightarrow> Tail" where
  "updateTail positionIncrement bottomRow t vis =
     \<lparr>tailStart = dadd (tailStart t) positionIncrement,
      tailEnd = (if vis then tailEnd t + positionIncrement else bottomRow),
      dead = (if vis then False else dead t)\<rparr>"

definition updateNotePosition :: "rat \<Rightarrow> rat \<Rightarrow> Note \<Rightarrow> TickSound" where
  "updateNotePosition positionIncrement bottomRow note =
     (let newY = position note + positionIncrement in
      case tail note of
        Some t \<Rightarrow>
          (let updatedTail = updateTail positionIncrement bottomRow t (visual note);
               updatedNote = note\<lparr>position := newY, tail := Some updatedTail\<rparr>
           in if visual note then
                if tailEnd updatedTail = bottomRow then
                  (if tailStart updatedTail < bottomRow
                   then (Some (updatedNote\<lparr>visual := False,
                                  tail := Some (updatedTail\<lparr>dead := True\<rparr>)\<rparr>), None)
                   else (None, None))
                else
                  (if tailStart updatedTail < bottomRow
                   then (Some updatedNote, None)
                   else (None, None))
              else
                if newY = bottomRow then (Some updatedNote, Some updatedNote)
                else
                  (if tailStart updatedTail < bottomRow
                   then (Some updatedNote, None)
                   else (None, None)))
      | None \<Rightarrow>
          if newY \<le> bottomRow then
            if visual note then
              if newY < bottomRow then (Some (note\<lparr>position := newY\<rparr>), None)
              else if newY = bottomRow then (None, None)
              else (None, None)
            else
              if newY < bottomRow then (Some (note\<lparr>position := newY\<rparr>), None)
              else if newY = bottomRow then (None, Some (note\<lparr>position := newY\<rparr>))
              else (None, None)
          else (None, None))"

definition updatePositionForGame :: "Note \<Rightarrow> TickSound" where
  "updatePositionForGame = updateNotePosition TICK_UNIT_INCREMENT BOTTOM_ROW"

record AccNoteSound =
  newCurrentNotes :: "Note list"
  newPlayableNotes :: "Note list"

definition initAccNoteSound :: AccNoteSound where
  "initAccNoteSound = \<lparr>newCurrentNotes = [], newPlayableNotes = []\<rparr>"

definition tickStep :: "AccNoteSound \<Rightarrow> Note \<Rightarrow> AccNoteSound" where
  \<comment> \<open>the callback of the \<^verbatim>\<open>reduce\<close> in \<^verbatim>\<open>tick\<close>\<close>
  "tickStep acc note =
     (case updatePositionForGame note of
        (updatedNote, playableNote) \<Rightarrow>
          \<lparr>newCurrentNotes =
             (case updatedNote of
                Some u \<Rightarrow> newCurrentNotes acc @ [u]
              | None \<Rightarrow> newCurrentNotes acc),
           newPlayableNotes =
             (case playableNote of
                Some p \<Rightarrow> newPlayableNotes acc @ [p]
              | None \<Rightarrow> newPlayableNotes acc)\<rparr>)"

definition filterCheck :: "Note \<Rightarrow> bool" where
  "filterCheck note \<longleftrightarrow> position note + 1 = BOTTOM_ROW \<and> visual note"

definition tick :: "State \<Rightarrow> State" where
  "tick s =
     (let acc = foldl tickStep initAccNoteSound (currentNotes s)
      in s\<lparr>gameEnd :=
              allNotesProcessed s \<and> length (newCurrentNotes acc) = 0
              \<and> length (newPlayableNotes acc) = 0 \<and> length (RIPNotes s) = 0,
            currentNotes := newCurrentNotes acc,
            noteCount :=
              (if length (filter filterCheck (newCurrentNotes acc)) = 0
               then noteCount s else bonusActive s),
            RIPNotes := currentNotes s,
            playableNotes := map ChartNote (newPlayableNotes acc)\<rparr>)"

section \<open>The actions\<close>

subsection \<open>ButtonRelease\<close>

definition releasable :: "rat \<Rightarrow> Note \<Rightarrow> bool" where
  \<comment> \<open>the condition that the three passes of \<^verbatim>\<open>ButtonRelease.apply\<close> repeat\<close>
  "releasable col note \<longleftrightarrow>
     (case tail note of
        None \<Rightarrow> False
      | Some t \<Rightarrow> column note = col \<and> \<not> visual note \<and> \<not> dead t)"

definition ButtonRelease_apply :: "rat \<Rightarrow> State \<Rightarrow> State" where
  "ButtonRelease_apply col s =
     (let scoreGainedModified =
            foldl (\<lambda>acc note.
                     if releasable col note
                     then dsub acc (dadd 1 (dmul d02 (of_int \<lfloor>ddiv (noteCount s) 10\<rfloor>)))
                     else acc)
                  (scoreGained s) (currentNotes s);
          noteCountModification =
            foldl (\<lambda>acc note. if releasable col note then bonusActive s else acc)
                  (noteCount s) (currentNotes s);
          notes =
            map (\<lambda>note.
                   if releasable col note
                   then note\<lparr>tail := map_option (\<lambda>t. t\<lparr>dead := True\<rparr>) (tail note)\<rparr>
                   else note)
                (currentNotes s)
      in s\<lparr>currentNotes := notes,
            noteCount := noteCountModification,
            scoreGained := toInt32 scoreGainedModified,
            RIPNotes := currentNotes s\<rparr>)"

subsection \<open>ButtonClick\<close>

record Accumulator =
  triggered :: bool
  acc_scoreGained :: rat
  notePressed :: rat
  specialGained :: rat

definition pressable :: "rat \<Rightarrow> Note \<Rightarrow> bool" where
  \<comment> \<open>the condition that both passes of \<^verbatim>\<open>ButtonClick.apply\<close> repeat\<close>
  "pressable col note \<longleftrightarrow>
     position note \<ge> BOTTOM_ROW - POSITION_THRESHOLD \<and> position note < BOTTOM_ROW
     \<and> column note = col \<and> visual note"

definition clickStep :: "rat \<Rightarrow> Accumulator \<Rightarrow> Note \<Rightarrow> Accumulator" where
  \<comment> \<open>the callback of the \<^verbatim>\<open>reduce\<close> in \<^verbatim>\<open>ButtonClick.apply\<close>\<close>
  "clickStep col acc note =
     (if pressable col note then
        if special note then
          acc\<lparr>triggered := True,
              specialGained := specialGained acc + 100,
              notePressed := notePressed acc + 100\<rparr>
        else
          acc\<lparr>triggered := True,
              notePressed := notePressed acc + 1,
              acc_scoreGained :=
                dadd (acc_scoreGained acc)
                     (dadd 1 (dmul d02 (toInt32 (ddiv (notePressed acc) 10))))\<rparr>
      else acc)"

definition instrumentList :: "string list" where
  "instrumentList =
     [''piano'', ''violin'', ''flute'', ''saxophone'', ''trumpet'', ''bass-electric'']"

definition arrayRead :: "'a list \<Rightarrow> rat \<Rightarrow> 'a option" where
  \<comment> \<open>\<^verbatim>\<open>xs[i]\<close> of the source: \<^verbatim>\<open>undefined\<close> unless \<open>i\<close> is an index of \<open>xs\<close>\<close>
  "arrayRead xs i =
     (if i = of_int \<lfloor>i\<rfloor> \<and> 0 \<le> i \<and> i < of_nat (length xs)
      then Some (xs ! nat \<lfloor>i\<rfloor>) else None)"

definition wrongNote :: "RNG \<Rightarrow> State \<Rightarrow> WrongNote" where
  "wrongNote R s =
     \<lparr>wrong_instrumentName =
        arrayRead instrumentList
          (toInt32 (dmul (RNG_scale R (hash s)) (of_nat (length instrumentList)))),
      wrong_velocity = toInt32 (dmul (RNG_scale R (hash s)) 90),
      wrong_pitch = toInt32 (dmul (RNG_scale R (hash s)) 70),
      wrong_start = 0,
      wrong_end = toInt32 (dmul (RNG_scale R (hash s)) 500)\<rparr>"

definition ButtonClick_apply :: "RNG \<Rightarrow> rat \<Rightarrow> State \<Rightarrow> State" where
  "ButtonClick_apply R col s =
     (let initialAcc =
            \<lparr>triggered = False, acc_scoreGained = scoreGained s,
             notePressed = noteCount s, specialGained = bonusActive s\<rparr>;
          trig = foldl (clickStep col) initialAcc (currentNotes s);
          notes =
            map (\<lambda>note. if pressable col note then note\<lparr>visual := False\<rparr> else note)
                (currentNotes s);
          checkWrongPress =
            (\<not> triggered trig
             \<and> length (filter (\<lambda>note. column note = col \<and> \<not> visual note \<and> tail note \<noteq> None)
                         notes) = 0)
      in s\<lparr>bonusActive := specialGained trig,
            currentNotes := notes,
            noteCount := (if checkWrongPress then bonusActive s else notePressed trig),
            hash := RNG_hash R (hash s),
            RIPNotes := currentNotes s,
            scoreGained := toInt32 (acc_scoreGained trig),
            playableNotes :=
              (if checkWrongPress
               then playableNotes s @ [WrongPress (wrongNote R s)]
               else playableNotes s)\<rparr>)"

subsection \<open>TickGame, GameEnd\<close>

definition TickGame_apply :: "State \<Rightarrow> State" where
  "TickGame_apply s =
     (let bonusFlag =
            (bonusActive s > 0 \<and> tickInterval s \<noteq> 0
             \<and> js_rem (tickInterval s) (toInt32 (ddiv 2000 TICK_RATE_MS)) = 0);
          updatedStat = tick s
      in updatedStat
           \<lparr>tickInterval :=
              (if bonusActive s > 0
                  \<and> (tickInterval s = 0
                     \<or> js_rem (tickInterval s) (toInt32 (ddiv 2000 TICK_RATE_MS)) \<noteq> 0)
               then tickInterval s + 1 else 0),
            bonusActive := (if bonusFlag then bonusActive s - 50 else bonusActive s),
            noteCount :=
              (if bonusFlag then noteCount updatedStat - 50 else noteCount updatedStat)\<rparr>)"

definition GameEnd_apply :: "State \<Rightarrow> State" where
  "GameEnd_apply s = tick (s\<lparr>allNotesProcessed := True\<rparr>)"

subsection \<open>NextNote\<close>

text \<open>
  The tail literal of the source has no \<^verbatim>\<open>dead\<close> field. It is given to visual notes
  only, and the physics step that \<^verbatim>\<open>NextNote.apply\<close> runs next writes
  \<^verbatim>\<open>dead: false\<close> for a visual note without reading the old value; the missing field
  is \<open>False\<close> here.
\<close>

definition notesWithTail :: "RNG \<Rightarrow> State \<Rightarrow> Note list \<Rightarrow> Note list" where
  "notesWithTail R s batch =
     map (\<lambda>note.
            let duration = dsub (end_t note) (start note) in
            if visual note \<and> duration > 1000 then
              (let tailLength = ddiv duration TICK_RATE_MS
               in note\<lparr>tail := Some \<lparr>tailStart = dsub (position note) tailLength,
                                      tailEnd = position note, dead = False\<rparr>\<rparr>)
            else
              note\<lparr>special :=
                     (toInt32 (dmul (RNG_scale R (hash s)) 100) \<ge> BONUS_NOTES_PERCENTAGE),
                   tail := None\<rparr>)
         batch"

definition NextNote_apply :: "RNG \<Rightarrow> Note list \<Rightarrow> State \<Rightarrow> State" where
  "NextNote_apply R batch s =
     tick (s\<lparr>hash := RNG_hash R (hash s),
             currentNotes := currentNotes s @ notesWithTail R s batch\<rparr>)"

subsection \<open>RandomiseNotes\<close>

definition RandomiseNotes_apply :: "RNG \<Rightarrow> State \<Rightarrow> State" where
  "RandomiseNotes_apply R s =
     s\<lparr>hash := RNG_hash R (hash s),
       currentNotes :=
         map (\<lambda>(idx, note).
                if visual note
                then note\<lparr>column :=
                            toInt32 (dmul (RNG_scale R (RNG_hash R (hash s + of_nat idx))) 4)\<rparr>
                else note)
             (enumerate 0 (currentNotes s))\<rparr>"

subsection \<open>The reducer\<close>

datatype Action =
    ButtonClick rat
  | ButtonRelease rat
  | TickGame
  | GameEnd
  | NextNote "Note list"
  | RandomiseNotes

fun applyAction :: "RNG \<Rightarrow> State \<Rightarrow> Action \<Rightarrow> State" where
  "applyAction R s (ButtonClick col) = ButtonClick_apply R col s"
| "applyAction R s (ButtonRelease col) = ButtonRelease_apply col s"
| "applyAction R s TickGame = TickGame_apply s"
| "applyAction R s GameEnd = GameEnd_apply s"
| "applyAction R s (NextNote batch) = NextNote_apply R batch s"
| "applyAction R s RandomiseNotes = RandomiseNotes_apply R s"

text \<open>
  The driver folds the actions over the initial state with \<^verbatim>\<open>scan\<close>; its subscriber
  unsubscribes as soon as a state has \<^verbatim>\<open>gameEnd\<close>, so no action is applied to such a
  state. \<open>scanActions\<close> is the fold alone, \<open>runGame\<close> the fold with the stop.
\<close>

definition scanActions :: "RNG \<Rightarrow> State \<Rightarrow> Action list \<Rightarrow> State" where
  "scanActions R s acts = foldl (applyAction R) s acts"

fun runGame :: "RNG \<Rightarrow> State \<Rightarrow> Action list \<Rightarrow> State" where
  "runGame R s [] = s"
| "runGame R s (a # acts) = (if gameEnd s then s else runGame R (applyAction R s a) acts)"

fun spawnsAtTop :: "Action \<Rightarrow> bool" where
  \<comment> \<open>both chart parsers of the source create every note with \<^verbatim>\<open>position: 0\<close>\<close>
  "spawnsAtTop (NextNote batch) = list_all (\<lambda>n. position n = 0) batch"
| "spawnsAtTop _ = True"

section \<open>Score and combo as the specification words them\<close>

text \<open>
  These follow the specification, not the source. A matched special note adds 100 to the
  combo and a matched normal note adds 1 (\<open>comboGain\<close>). The score after the first \<open>i\<close>
  notes (\<open>runningScore\<close>) grows, at each matched normal note, by
  \<open>1 + 0.2 * ~~(combo / 10)\<close> for the combo reached before that note, in the arithmetic of
  the source. A release takes \<open>1 + 0.2 * floor(combo / 10)\<close> (\<open>releasePenalty\<close>) once for
  each tail that it ends. They are compared below with the \<^verbatim>\<open>reduce\<close> calls of
  \<^verbatim>\<open>ButtonClick.apply\<close> and \<^verbatim>\<open>ButtonRelease.apply\<close>.
\<close>

definition comboGain :: "rat \<Rightarrow> Note list \<Rightarrow> rat" where
  "comboGain col ns =
     100 * of_nat (length (filter (\<lambda>n. pressable col n \<and> special n) ns))
     + of_nat (length (filter (\<lambda>n. pressable col n \<and> \<not> special n) ns))"

definition hitGain :: "rat \<Rightarrow> rat" where
  "hitGain combo = dadd 1 (dmul d02 (toInt32 (ddiv combo 10)))"

fun runningScore :: "rat \<Rightarrow> rat \<Rightarrow> rat \<Rightarrow> Note list \<Rightarrow> nat \<Rightarrow> rat" where
  "runningScore col combo score ns 0 = score"
| "runningScore col combo score ns (Suc i) =
     (if pressable col (ns ! i) \<and> \<not> special (ns ! i)
      then dadd (runningScore col combo score ns i)
                (hitGain (combo + comboGain col (take i ns)))
      else runningScore col combo score ns i)"

definition releasePenalty :: "rat \<Rightarrow> rat" where
  "releasePenalty combo = dadd 1 (dmul d02 (of_int \<lfloor>ddiv combo 10\<rfloor>))"

fun afterPenalties :: "nat \<Rightarrow> rat \<Rightarrow> rat \<Rightarrow> rat" where
  \<comment> \<open>the score after \<open>k\<close> subtractions of the penalty \<open>p\<close>\<close>
  "afterPenalties 0 p score = score"
| "afterPenalties (Suc k) p score = afterPenalties k p (dsub score p)"

section \<open>Concrete inputs\<close>

text \<open>
  A linear congruential generator, a note without a tail, and a sustained note whose head
  has passed the bottom row, to run the engine on concrete inputs. No general theorem below
  depends on them.
\<close>

definition exampleRNG :: RNG where
  "exampleRNG =
     \<lparr>RNG_hash = (\<lambda>seed. js_rem (1103515245 * seed + 12345) 2147483648),
      RNG_scale = (\<lambda>h. ddiv h 2147483647)\<rparr>"

definition exampleNote :: "rat \<Rightarrow> bool \<Rightarrow> rat \<Rightarrow> rat \<Rightarrow> Note" where
  "exampleNote i vis pos col =
     \<lparr>note_id = i, special = False, visual = vis, position = pos, column = col,
      instrumentName = ''piano'', velocity = 80, pitch = 60, start = 0, end_t = 0,
      tail = None\<rparr>"

definition sustainedNote :: "rat \<Rightarrow> rat \<Rightarrow> bool \<Rightarrow> Note" where
  "sustainedNote i col d =
     \<lparr>note_id = i, special = False, visual = False, position = 360, column = col,
      instrumentName = ''violin'', velocity = 80, pitch = 61, start = 0, end_t = 1400,
      tail = Some \<lparr>tailStart = 160, tailEnd = 350, dead = d\<rparr>\<rparr>"

section \<open>Evaluating floors of rationals\<close>

lemma floor_rat_numeral [simp]:
  "\<lfloor>numeral a / numeral b :: rat\<rfloor> = numeral a div numeral b"
  by (metis floor_divide_of_int_eq of_int_numeral)

lemma floor_rat_neg_numeral [simp]:
  "\<lfloor>- (numeral a / numeral b) :: rat\<rfloor> = - numeral a div numeral b"
  by (metis divide_minus_left floor_divide_of_int_eq of_int_neg_numeral of_int_numeral)

lemma ceiling_rat_numeral [simp]:
  "\<lceil>numeral a / numeral b :: rat\<rceil> = - (- numeral a div numeral b)"
  by (simp add: ceiling_def)

lemma ceiling_rat_neg_numeral [simp]:
  "\<lceil>- (numeral a / numeral b) :: rat\<rceil> = - (numeral a div numeral b)"
  by (simp add: ceiling_def)

section \<open>Rounding to a double\<close>

lemma rne_of_int [simp]: "rne (of_int m) = m"
  by (simp add: rne_def)

lemma rne_cases: "rne q = \<lfloor>q\<rfloor> \<or> rne q = \<lfloor>q\<rfloor> + 1"
  by (simp add: rne_def Let_def)

lemma rne_floor_le: "\<lfloor>q\<rfloor> \<le> rne q" and rne_le_floor: "rne q \<le> \<lfloor>q\<rfloor> + 1"
  using rne_cases [of q] by auto

lemma rne_mono: "q \<le> q' \<Longrightarrow> rne q \<le> rne q'"
proof -
  assume le: "q \<le> q'"
  then have fl: "\<lfloor>q\<rfloor> \<le> \<lfloor>q'\<rfloor>" by (rule floor_mono)
  show ?thesis
  proof (cases "\<lfloor>q\<rfloor> = \<lfloor>q'\<rfloor>")
    case True
    with le have "q - of_int \<lfloor>q\<rfloor> \<le> q' - of_int \<lfloor>q'\<rfloor>" by simp
    with True show ?thesis by (auto simp: rne_def Let_def)
  next
    case False
    with fl have "\<lfloor>q\<rfloor> + 1 \<le> \<lfloor>q'\<rfloor>" by simp
    with rne_le_floor [of q] rne_floor_le [of q'] show ?thesis by linarith
  qed
qed

lemma rne_le_int: "q \<le> of_int N \<Longrightarrow> rne q \<le> N"
  using rne_mono [of q "of_int N"] by simp

lemma rne_ge_int: "of_int N \<le> q \<Longrightarrow> N \<le> rne q"
  using rne_mono [of "of_int N" q] by simp

lemma pow2_less_iff: "(2::rat) powi a < 2 powi b \<longleftrightarrow> a < b"
proof
  assume l: "(2::rat) powi a < 2 powi b"
  show "a < b"
  proof (rule ccontr)
    assume "\<not> a < b"
    then have "b \<le> a" by simp
    then have "(2::rat) powi b \<le> 2 powi a" by (rule power_int_increasing) simp
    with l show False by simp
  qed
next
  assume "a < b"
  then show "(2::rat) powi a < 2 powi b" by (rule power_int_strict_increasing) simp
qed

lemma pow2_le_iff: "(2::rat) powi a \<le> 2 powi b \<longleftrightarrow> a \<le> b"
  using pow2_less_iff [of b a] by (simp add: not_less [symmetric])

lemma pow2_pos: "0 < (2::rat) powi a"
  by simp

lemma expo_bounds:
  assumes "0 < x"
  shows "2 powi (expo x) \<le> x" and "x < 2 powi (expo x + 1)"
proof -
  have "2 powi (expo x) \<le> x \<and> x < 2 powi (expo x + 1)"
  proof (cases "1 \<le> x")
    case True
    then have p: "0 < \<lfloor>x\<rfloor>" by linarith
    let ?b = "bitlen \<lfloor>x\<rfloor>"
    from bitlen_bounds [OF p] have lo: "2 ^ nat (?b - 1) \<le> \<lfloor>x\<rfloor>"
      and hi: "\<lfloor>x\<rfloor> < 2 ^ nat ?b" by simp_all
    from p have b1: "1 \<le> ?b" using bitlen_eq_zero_iff [of "\<lfloor>x\<rfloor>"] bitlen_nonneg [of "\<lfloor>x\<rfloor>"]
      by linarith
    from lo have "(of_int (2 ^ nat (?b - 1)) :: rat) \<le> of_int \<lfloor>x\<rfloor>" by (simp only: of_int_le_iff)
    also have "\<dots> \<le> x" by simp
    finally have 1: "(2::rat) powi (?b - 1) \<le> x" using b1 by (simp add: power_int_nonneg_exp)
    from hi have "\<lfloor>x\<rfloor> + 1 \<le> 2 ^ nat ?b" by simp
    then have "(of_int (\<lfloor>x\<rfloor> + 1) :: rat) \<le> of_int (2 ^ nat ?b)" by (simp only: of_int_le_iff)
    moreover have "x < of_int (\<lfloor>x\<rfloor> + 1)" by linarith
    ultimately have 2: "x < (2::rat) powi ?b" using b1 by (simp add: power_int_nonneg_exp)
    from True 1 2 show ?thesis by (simp add: expo_def)
  next
    case False
    with assms have y: "1 < 1 / x" by simp
    let ?m = "\<lceil>1 / x\<rceil>"
    from y have p: "0 < ?m - 1" by linarith
    let ?b = "bitlen (?m - 1)"
    from bitlen_bounds [OF p] have lo: "2 ^ nat (?b - 1) \<le> ?m - 1"
      and hi: "?m - 1 < 2 ^ nat ?b" by simp_all
    from p have b1: "1 \<le> ?b"
      using bitlen_eq_zero_iff [of "?m - 1"] bitlen_nonneg [of "?m - 1"] by linarith
    have pw: "(2::rat) powi (- ?b) = 1 / 2 ^ nat ?b"
      using b1 by (simp add: power_int_minus_divide power_int_nonneg_exp)
    have pw': "(2::rat) powi (- ?b + 1) = 1 / 2 ^ nat (?b - 1)"
    proof -
      have "(2::rat) powi (- ?b + 1) = 2 powi (- (?b - 1))" by simp
      also have "\<dots> = 1 / 2 powi (?b - 1)" by (rule power_int_minus_divide)
      also have "\<dots> = 1 / 2 ^ nat (?b - 1)" using b1 by (simp add: power_int_nonneg_exp)
      finally show ?thesis .
    qed
    from hi have "?m \<le> 2 ^ nat ?b" by simp
    then have "(of_int ?m :: rat) \<le> of_int (2 ^ nat ?b)" by (simp only: of_int_le_iff)
    moreover have "1 / x \<le> of_int ?m" by (rule le_of_int_ceiling)
    ultimately have "1 / x \<le> of_int (2 ^ nat ?b)" by (rule order_trans [rotated])
    then have "1 / x \<le> 2 ^ nat ?b" by simp
    with assms have 1: "1 / 2 ^ nat ?b \<le> x"
      by (simp add: field_simps)
    from lo have "(of_int (2 ^ nat (?b - 1)) :: rat) \<le> of_int (?m - 1)"
      by (simp only: of_int_le_iff)
    moreover have "of_int (?m - 1) < 1 / x" by linarith
    ultimately have "(2 ^ nat (?b - 1) :: rat) < 1 / x" by simp
    with assms have 2: "x < 1 / 2 ^ nat (?b - 1)"
      by (simp add: field_simps)
    from False 1 2 pw pw' show ?thesis by (simp add: expo_def)
  qed
  then show "2 powi (expo x) \<le> x" and "x < 2 powi (expo x + 1)" by blast+
qed

lemma expo_unique:
  assumes "2 powi e \<le> x" and "x < 2 powi (e + 1)"
  shows "expo x = e"
proof -
  have pos: "0 < x" using assms(1) zero_less_power_int [of "2::rat" e] by linarith
  note b = expo_bounds [OF pos]
  from b(1) assms(2) have "(2::rat) powi (expo x) < 2 powi (e + 1)" by linarith
  then have 1: "expo x < e + 1" by (simp only: pow2_less_iff)
  from assms(1) b(2) have "(2::rat) powi e < 2 powi (expo x + 1)" by linarith
  then have 2: "e < expo x + 1" by (simp only: pow2_less_iff)
  from 1 2 show ?thesis by linarith
qed

lemma expo_mono:
  assumes "0 < x" and "x \<le> y"
  shows "expo x \<le> expo y"
proof -
  from assms have y: "0 < y" by simp
  from expo_bounds(1) [OF assms(1)] assms(2) expo_bounds(2) [OF y]
  have "(2::rat) powi (expo x) < 2 powi (expo y + 1)" by linarith
  then show ?thesis by (simp only: pow2_less_iff)
qed

lemma ulp_pos [simp]: "0 < ulp x"
  by (simp add: ulp_def)

lemma ulp_nonneg [simp]: "0 \<le> ulp x"
  using ulp_pos [of x] by (rule less_imp_le)

lemma pow2_split: "(2::rat) powi (e + 1) = 2 ^ 53 * 2 powi (e - 52)"
  and pow2_split': "(2::rat) powi e = 2 ^ 52 * 2 powi (e - 52)"
proof -
  have "(2::rat) powi (e + 1) = 2 powi (53 + (e - 52))"
    by (rule arg_cong [where f = "\<lambda>n. 2 powi n"]) simp
  also have "\<dots> = 2 powi 53 * 2 powi (e - 52)" by (rule power_int_add) simp
  finally show "(2::rat) powi (e + 1) = 2 ^ 53 * 2 powi (e - 52)" by simp
  have "(2::rat) powi e = 2 powi (52 + (e - 52))"
    by (rule arg_cong [where f = "\<lambda>n. 2 powi n"]) simp
  also have "\<dots> = 2 powi 52 * 2 powi (e - 52)" by (rule power_int_add) simp
  finally show "(2::rat) powi e = 2 ^ 52 * 2 powi (e - 52)" by simp
qed

lemma ulp_minus [simp]: "ulp (- x) = ulp x"
  by (simp add: ulp_def)

lemma ulp_abs [simp]: "ulp \<bar>x\<bar> = ulp x"
  by (simp add: ulp_def)

lemma ulp_mono:
  assumes "0 < x" and "x \<le> y"
  shows "ulp x \<le> ulp y"
proof -
  from assms have "expo \<bar>x\<bar> \<le> expo \<bar>y\<bar>" using expo_mono [of x y] by simp
  then show ?thesis by (simp add: ulp_def pow2_le_iff)
qed

lemma round53_zero [simp]: "round53 0 = 0"
  by (simp add: round53_def)

lemma round53_pos: "0 < x \<Longrightarrow> round53 x = of_int (rne (x / ulp x)) * ulp x"
  by (simp add: round53_def)

lemma round53_minus: "round53 (- x) = - round53 x"
  by (simp add: round53_def sgn_minus)

lemma round53_nonneg: "0 \<le> x \<Longrightarrow> 0 \<le> round53 x"
proof (cases "x = 0")
  case True
  then show ?thesis by simp
next
  case False
  assume "0 \<le> x"
  with False have p: "0 < x" by simp
  then have "0 \<le> x / ulp x" by (simp add: divide_nonneg_pos)
  then have "0 \<le> rne (x / ulp x)" using rne_ge_int [of 0 "x / ulp x"] by simp
  with p show ?thesis by (simp add: round53_pos)
qed

lemma round53_nonpos: "x \<le> 0 \<Longrightarrow> round53 x \<le> 0"
  using round53_nonneg [of "- x"] by (simp add: round53_minus)

lemma quotient_less:
  assumes "0 < x"
  shows "x / ulp x < 2 ^ 53"
proof -
  let ?E = "max (expo \<bar>x\<bar>) (- 1022)"
  from assms have "x < 2 powi (expo \<bar>x\<bar> + 1)" using expo_bounds(2) [of x] by simp
  also have "\<dots> \<le> 2 powi (?E + 1)" by (simp add: pow2_le_iff)
  also have "\<dots> = 2 ^ 53 * 2 powi (?E - 52)" by (rule pow2_split)
  finally have "x < 2 ^ 53 * ulp x" by (simp add: ulp_def)
  then show ?thesis by (simp add: field_simps)
qed

lemma quotient_ge:
  assumes "0 < x" and "- 1022 \<le> expo x"
  shows "2 ^ 52 \<le> x / ulp x"
proof -
  from assms have u: "ulp x = 2 powi (expo x - 52)" by (simp add: ulp_def max_def)
  have "(2::rat) powi (expo x) = 2 ^ 52 * 2 powi (expo x - 52)" by (rule pow2_split')
  with expo_bounds(1) [OF assms(1)] u have "2 ^ 52 * ulp x \<le> x" by simp
  then show ?thesis by (simp add: field_simps)
qed

lemma round53_le_top:
  assumes "0 < x"
  shows "round53 x \<le> 2 ^ 53 * ulp x"
proof -
  from quotient_less [OF assms] have "x / ulp x \<le> of_int (2 ^ 53)" by simp
  then have "rne (x / ulp x) \<le> 2 ^ 53" by (rule rne_le_int)
  then have "(of_int (rne (x / ulp x)) :: rat) \<le> of_int (2 ^ 53)" by (simp only: of_int_le_iff)
  then have "of_int (rne (x / ulp x)) * ulp x \<le> of_int (2 ^ 53) * ulp x"
    by (rule mult_right_mono) simp
  with assms show ?thesis by (simp add: round53_pos)
qed

lemma round53_ge_bottom:
  assumes "0 < x" and "- 1022 \<le> expo x"
  shows "2 ^ 52 * ulp x \<le> round53 x"
proof -
  from quotient_ge [OF assms] have "of_int (2 ^ 52) \<le> x / ulp x" by simp
  then have "2 ^ 52 \<le> rne (x / ulp x)" by (rule rne_ge_int)
  then have "(of_int (2 ^ 52) :: rat) \<le> of_int (rne (x / ulp x))" by (simp only: of_int_le_iff)
  then have "of_int (2 ^ 52) * ulp x \<le> of_int (rne (x / ulp x)) * ulp x"
    by (rule mult_right_mono) simp
  with assms show ?thesis by (simp add: round53_pos)
qed

lemma round53_mono_pos:
  assumes "0 < x" and "x \<le> y"
  shows "round53 x \<le> round53 y"
proof -
  from assms have y: "0 < y" by simp
  let ?Ex = "max (expo \<bar>x\<bar>) (- 1022)" and ?Ey = "max (expo \<bar>y\<bar>) (- 1022)"
  from assms y have e: "expo \<bar>x\<bar> \<le> expo \<bar>y\<bar>" using expo_mono [of x y] by simp
  show ?thesis
  proof (cases "?Ex = ?Ey")
    case True
    then have u: "ulp x = ulp y" by (simp add: ulp_def)
    from assms(2) have "x / ulp y \<le> y / ulp y" by (rule divide_right_mono) simp
    then have "rne (x / ulp y) \<le> rne (y / ulp y)" by (rule rne_mono)
    then have "(of_int (rne (x / ulp y)) :: rat) \<le> of_int (rne (y / ulp y))"
      by (simp only: of_int_le_iff)
    then have "of_int (rne (x / ulp y)) * ulp y \<le> of_int (rne (y / ulp y)) * ulp y"
      by (rule mult_right_mono) simp
    with assms(1) y u show ?thesis by (simp add: round53_pos)
  next
    case False
    with e have lt: "?Ex < ?Ey" by (simp add: max_def split: if_splits)
    then have ny: "- 1022 \<le> expo y" and Ey: "?Ey = expo y" using y by (simp_all add: max_def split: if_splits)
    from lt have "?Ex + 1 \<le> ?Ey" by linarith
    then have "(2::rat) powi (?Ex + 1) \<le> 2 powi ?Ey" by (simp only: pow2_le_iff)
    moreover have "(2::rat) powi (?Ex + 1) = 2 ^ 53 * ulp x"
      unfolding ulp_def by (rule pow2_split)
    moreover have "(2::rat) powi ?Ey = 2 ^ 52 * ulp y"
      unfolding ulp_def by (rule pow2_split')
    ultimately have "2 ^ 53 * ulp x \<le> 2 ^ 52 * ulp y" by simp
    with round53_le_top [OF assms(1)] round53_ge_bottom [OF y ny] show ?thesis by linarith
  qed
qed

lemma round53_mono: "x \<le> y \<Longrightarrow> round53 x \<le> round53 y"
proof -
  assume le: "x \<le> y"
  consider "0 < x" | "x \<le> 0" "0 \<le> y" | "y < 0" by linarith
  then show ?thesis
  proof cases
    case 1
    then show ?thesis using le by (rule round53_mono_pos)
  next
    case 2
    with round53_nonpos [of x] round53_nonneg [of y] show ?thesis by linarith
  next
    case 3
    with le have "0 < - y" "- y \<le> - x" by simp_all
    then have "round53 (- y) \<le> round53 (- x)" by (rule round53_mono_pos)
    then show ?thesis by (simp add: round53_minus)
  qed
qed

lemma pow2_nonneg_exp: "0 \<le> k \<Longrightarrow> (2::rat) powi k = of_int (2 ^ nat k)"
  by (simp add: power_int_nonneg_exp)

lemma round53_grid_pos:
  assumes m: "0 < m" "m < 2 ^ 53" and k: "- 1074 \<le> k"
  shows "round53 (of_int m * 2 powi k) = of_int m * 2 powi k"
proof -
  define x :: rat where "x = of_int m * 2 powi k"
  define E where "E = max (expo \<bar>x\<bar>) (- 1022)"
  define U where "U = ulp x"
  define P :: int where "P = 2 ^ nat (k - (E - 52))"
  from m have x: "0 < x" by (simp add: x_def)
  have "of_int m < (of_int (2 ^ 53) :: rat)" using m(2) by (simp only: of_int_less_iff)
  then have "x < 2 ^ 53 * 2 powi k" by (simp add: x_def)
  also have "\<dots> = 2 powi (53 + k)" by (simp add: power_int_add)
  finally have "x < 2 powi (53 + k)" .
  with expo_bounds(1) [OF x] have "(2::rat) powi (expo x) < 2 powi (53 + k)" by linarith
  then have "expo x < 53 + k" by (simp only: pow2_less_iff)
  with k x have d: "0 \<le> k - (E - 52)" by (simp add: E_def)
  have u: "U = 2 powi (E - 52)" by (simp add: U_def E_def ulp_def)
  have Upos: "0 < U" by (simp add: U_def)
  have "(2::rat) powi k = 2 powi ((k - (E - 52)) + (E - 52))" by simp
  also have "\<dots> = 2 powi (k - (E - 52)) * 2 powi (E - 52)" by (rule power_int_add) simp
  also have "\<dots> = of_int P * U" using d by (simp only: pow2_nonneg_exp P_def u)
  finally have "x = of_int m * (of_int P * U)" by (simp only: x_def)
  then have xe: "x = of_int (m * P) * U" by simp
  then have q: "x / U = of_int (m * P)" using Upos by simp
  have "round53 x = of_int (rne (x / U)) * U" unfolding U_def using x by (rule round53_pos)
  also have "\<dots> = of_int (m * P) * U" by (simp only: q rne_of_int)
  also have "\<dots> = x" using xe by simp
  finally show ?thesis by (simp only: x_def)
qed

lemma round53_grid:
  assumes "\<bar>m\<bar> < 2 ^ 53" and "- 1074 \<le> k"
  shows "round53 (of_int m * 2 powi k) = of_int m * 2 powi k"
proof -
  consider "m = 0" | "0 < m" | "m < 0" by linarith
  then show ?thesis
  proof cases
    case 1
    then show ?thesis by simp
  next
    case 2
    with assms show ?thesis by (intro round53_grid_pos) simp_all
  next
    case 3
    with assms have "round53 (of_int (- m) * 2 powi k) = of_int (- m) * 2 powi k"
      by (intro round53_grid_pos) simp_all
    then show ?thesis using round53_minus [of "of_int m * 2 powi k"] by simp
  qed
qed

lemma round53_of_int: "\<bar>z\<bar> < 2 ^ 53 \<Longrightarrow> round53 (of_int z) = of_int z"
  using round53_grid [of z 0] by simp

lemma round53_pow2: "- 1074 \<le> k \<Longrightarrow> round53 (2 powi k) = 2 powi k"
  using round53_grid [of 1 k] by simp

lemma round53_idem_pos:
  assumes "0 < x"
  shows "round53 (round53 x) = round53 x"
proof -
  let ?E = "max (expo \<bar>x\<bar>) (- 1022)"
  let ?m = "rne (x / ulp x)"
  have r: "round53 x = of_int ?m * 2 powi (?E - 52)"
    using assms by (simp add: round53_pos ulp_def)
  have k: "- 1074 \<le> ?E - 52" by simp
  from assms have "0 \<le> x / ulp x" by (simp add: divide_nonneg_pos)
  then have m0: "0 \<le> ?m" using rne_ge_int [of 0 "x / ulp x"] by simp
  from quotient_less [OF assms] have "x / ulp x \<le> of_int (2 ^ 53)" by simp
  then have m1: "?m \<le> 2 ^ 53" by (rule rne_le_int)
  show ?thesis
  proof (cases "?m = 2 ^ 53")
    case True
    then have "round53 x = 2 ^ 53 * 2 powi (?E - 52)" using r by simp
    also have "\<dots> = 2 powi (?E + 1)" by (rule pow2_split [symmetric])
    finally have e: "round53 x = 2 powi (?E + 1)" .
    have "- 1074 \<le> ?E + 1" by simp
    then show ?thesis unfolding e by (rule round53_pow2)
  next
    case False
    with m0 m1 have "\<bar>?m\<bar> < 2 ^ 53" by simp
    then show ?thesis unfolding r using k by (rule round53_grid)
  qed
qed

lemma round53_idem [simp]: "round53 (round53 x) = round53 x"
proof -
  consider "x = 0" | "0 < x" | "x < 0" by linarith
  then show ?thesis
  proof cases
    case 1
    then show ?thesis by simp
  next
    case 2
    then show ?thesis by (rule round53_idem_pos)
  next
    case 3
    then have "round53 (round53 (- x)) = round53 (- x)" by (intro round53_idem_pos) simp
    then show ?thesis by (simp add: round53_minus)
  qed
qed

lemma double_on_grid:
  assumes fp: "round53 u = u" and lo: "2 powi e \<le> u" and hi: "u < 2 powi (e + 1)"
    and e: "- 1022 \<le> e"
  shows "\<exists>m::int. u = of_int m * 2 powi (e - 52) \<and> 2 ^ 52 \<le> m \<and> m < 2 ^ 53"
proof -
  have pos: "0 < u" using lo zero_less_power_int [of "2::rat" e] by linarith
  have ex: "expo u = e" using lo hi by (rule expo_unique)
  with pos e have ul: "ulp u = 2 powi (e - 52)" by (simp add: ulp_def max_def)
  let ?m = "rne (u / ulp u)"
  from fp pos ul have u: "u = of_int ?m * 2 powi (e - 52)" by (simp add: round53_pos)
  have q: "u / ulp u = of_int ?m" using u ul by (simp add: field_simps)
  from pos ex e have "2 ^ 52 \<le> u / ulp u" by (intro quotient_ge) simp_all
  then have "(of_int (2 ^ 52) :: rat) \<le> of_int ?m" using q by simp
  then have 1: "2 ^ 52 \<le> ?m" by (simp only: of_int_le_iff)
  from quotient_less [OF pos] have "(of_int ?m :: rat) < of_int (2 ^ 53)" using q by simp
  then have 2: "?m < 2 ^ 53" by (simp only: of_int_less_iff)
  from u 1 2 show ?thesis by blast
qed

section \<open>Truncation and remainder\<close>

lemma toInt32_of_int:
  "- 2147483648 \<le> z \<Longrightarrow> z < 2147483648 \<Longrightarrow> toInt32 (of_int z) = of_int z"
proof -
  assume a: "- 2147483648 \<le> z" "z < 2147483648"
  have t: "trunc (of_int z) = z" by (simp add: trunc_def)
  show ?thesis
  proof (cases "0 \<le> z")
    case True
    with a have "z mod 4294967296 = z" by simp
    with a show ?thesis by (simp add: toInt32_def t Let_def)
  next
    case False
    with a have "z mod 4294967296 = z + 4294967296"
      by (smt (verit) mod_add_self2 mod_pos_pos_trivial)
    with a False show ?thesis by (simp add: toInt32_def t Let_def)
  qed
qed

lemma toInt32_cycle: "toInt32 (ddiv 2000 TICK_RATE_MS) = 285"
  unfolding TICK_RATE_MS_def by code_simp

lemma js_rem_zero_iff: "js_rem x 285 = 0 \<longleftrightarrow> (\<exists>k::int. x = 285 * of_int k)"
proof
  assume "js_rem x 285 = 0"
  then have "x = 285 * of_int (trunc (x / 285))" by (simp add: js_rem_def)
  then show "\<exists>k::int. x = 285 * of_int k" by blast
next
  assume "\<exists>k::int. x = 285 * of_int k"
  then obtain k :: int where k: "x = 285 * of_int k" by blast
  have "trunc (of_int k) = k" by (simp add: trunc_def)
  with k show "js_rem x 285 = 0" by (simp add: js_rem_def)
qed

section \<open>The physics step as a filter\<close>

lemma foldl_tickStep_current:
  "newCurrentNotes (foldl tickStep acc xs) =
     newCurrentNotes acc @ List.map_filter (\<lambda>n. fst (updatePositionForGame n)) xs"
  by (induction xs arbitrary: acc)
     (auto simp: tickStep_def split: prod.splits option.splits)

lemma foldl_tickStep_playable:
  "newPlayableNotes (foldl tickStep acc xs) =
     newPlayableNotes acc @ List.map_filter (\<lambda>n. snd (updatePositionForGame n)) xs"
  by (induction xs arbitrary: acc)
     (auto simp: tickStep_def split: prod.splits option.splits)

lemma tick_currentNotes:
  "currentNotes (tick s) =
     List.map_filter (\<lambda>n. fst (updatePositionForGame n)) (currentNotes s)"
  by (simp add: tick_def Let_def foldl_tickStep_current initAccNoteSound_def)

lemma tick_playableNotes:
  "playableNotes (tick s) =
     map ChartNote (List.map_filter (\<lambda>n. snd (updatePositionForGame n)) (currentNotes s))"
  by (simp add: tick_def Let_def foldl_tickStep_playable initAccNoteSound_def)

lemma tick_fields:
  "RIPNotes (tick s) = currentNotes s"
  "scoreGained (tick s) = scoreGained s"
  "hash (tick s) = hash s"
  "bonusActive (tick s) = bonusActive s"
  "tickInterval (tick s) = tickInterval s"
  "allNotesProcessed (tick s) = allNotesProcessed s"
  by (simp_all add: tick_def Let_def)

lemma tick_gameEnd:
  "gameEnd (tick s) \<longleftrightarrow>
     allNotesProcessed s \<and> currentNotes (tick s) = [] \<and> playableNotes (tick s) = []
     \<and> RIPNotes s = []"
  by (simp add: tick_def Let_def)

lemma tick_noteCount:
  "noteCount (tick s) =
     (if filter filterCheck (currentNotes (tick s)) = [] then noteCount s else bonusActive s)"
  by (simp add: tick_def Let_def)

lemma map_filter_append:
  "List.map_filter f (xs @ ys) = List.map_filter f xs @ List.map_filter f ys"
  by (simp add: List.map_filter_def)

lemma untailed_below:
  "tail n = None \<Longrightarrow> position n + 1 < BOTTOM_ROW \<Longrightarrow>
   updatePositionForGame n = (Some (n\<lparr>position := position n + 1\<rparr>), None)"
  by (simp add: updatePositionForGame_def updateNotePosition_def TICK_UNIT_INCREMENT_def Let_def)

lemma untailed_boundary_played:
  "tail n = None \<Longrightarrow> position n + 1 = BOTTOM_ROW \<Longrightarrow> \<not> visual n \<Longrightarrow>
   updatePositionForGame n = (None, Some (n\<lparr>position := position n + 1\<rparr>))"
  by (simp add: updatePositionForGame_def updateNotePosition_def TICK_UNIT_INCREMENT_def Let_def)

lemma untailed_boundary_missed:
  "tail n = None \<Longrightarrow> position n + 1 = BOTTOM_ROW \<Longrightarrow> visual n \<Longrightarrow>
   updatePositionForGame n = (None, None)"
  by (simp add: updatePositionForGame_def updateNotePosition_def TICK_UNIT_INCREMENT_def Let_def)

section \<open>Claims about the physics step\<close>

text \<open>
  C7. One step of \<open>tick\<close> on a note without a tail, anywhere in \<open>currentNotes\<close>: if
  its new position is strictly below the bottom row, the note stays, with only its position
  incremented, and it is not played; if the new position is the bottom row exactly, a
  non-visual note leaves \<open>currentNotes\<close> and is emitted in \<open>playableNotes\<close>, and a visual
  note leaves \<open>currentNotes\<close> and is not emitted. The score is not changed by the step.
  The notes before and after it are processed as they would be alone.
\<close>

theorem tick_untailed_note:
  assumes "tail n = None" and "currentNotes s = pre @ n # post"
  shows "(position n + 1 < BOTTOM_ROW \<longrightarrow>
            currentNotes (tick s) =
              currentNotes (tick (s\<lparr>currentNotes := pre\<rparr>))
              @ n\<lparr>position := position n + 1\<rparr>
              # currentNotes (tick (s\<lparr>currentNotes := post\<rparr>))
            \<and> playableNotes (tick s) =
              playableNotes (tick (s\<lparr>currentNotes := pre\<rparr>))
              @ playableNotes (tick (s\<lparr>currentNotes := post\<rparr>)))
       \<and> (position n + 1 = BOTTOM_ROW \<and> \<not> visual n \<longrightarrow>
            currentNotes (tick s) =
              currentNotes (tick (s\<lparr>currentNotes := pre\<rparr>))
              @ currentNotes (tick (s\<lparr>currentNotes := post\<rparr>))
            \<and> playableNotes (tick s) =
              playableNotes (tick (s\<lparr>currentNotes := pre\<rparr>))
              @ ChartNote (n\<lparr>position := position n + 1\<rparr>)
              # playableNotes (tick (s\<lparr>currentNotes := post\<rparr>)))
       \<and> (position n + 1 = BOTTOM_ROW \<and> visual n \<longrightarrow>
            currentNotes (tick s) =
              currentNotes (tick (s\<lparr>currentNotes := pre\<rparr>))
              @ currentNotes (tick (s\<lparr>currentNotes := post\<rparr>))
            \<and> playableNotes (tick s) =
              playableNotes (tick (s\<lparr>currentNotes := pre\<rparr>))
              @ playableNotes (tick (s\<lparr>currentNotes := post\<rparr>)))
       \<and> scoreGained (tick s) = scoreGained s"
  using assms
  by (simp add: tick_currentNotes tick_playableNotes tick_fields map_filter_append
        untailed_below untailed_boundary_played untailed_boundary_missed)

theorem tick_untailed_note_witness:
  "currentNotes (tick (initialState exampleRNG
       \<lparr>currentNotes := [exampleNote 1 True 10 0, exampleNote 2 False 349 1,
                         exampleNote 3 True 349 2]\<rparr>))
     = [exampleNote 1 True 11 0]
   \<and> playableNotes (tick (initialState exampleRNG
       \<lparr>currentNotes := [exampleNote 1 True 10 0, exampleNote 2 False 349 1,
                         exampleNote 3 True 349 2]\<rparr>))
     = [ChartNote (exampleNote 2 False 350 1)]"
proof -
  let ?a = "exampleNote 1 True 10 0" and ?b = "exampleNote 2 False 349 1"
    and ?c = "exampleNote 3 True 349 2"
  let ?s = "initialState exampleRNG\<lparr>currentNotes := [?a, ?b, ?c]\<rparr>"
  have ta: "tail ?a = None" and tb: "tail ?b = None" and tc: "tail ?c = None"
    by (simp_all add: exampleNote_def)
  have la: "currentNotes ?s = [] @ ?a # [?b, ?c]" by simp
  have lb: "currentNotes (?s\<lparr>currentNotes := [?b, ?c]\<rparr>) = [] @ ?b # [?c]" by simp
  have lc: "currentNotes (?s\<lparr>currentNotes := [?c]\<rparr>) = [] @ ?c # []" by simp
  have e: "currentNotes (tick (?s\<lparr>currentNotes := []\<rparr>)) = []"
          "playableNotes (tick (?s\<lparr>currentNotes := []\<rparr>)) = []"
    by (simp_all add: tick_def initAccNoteSound_def)
  show ?thesis
    using tick_untailed_note [OF ta la] tick_untailed_note [OF tb lb]
      tick_untailed_note [OF tc lc] e
    by (simp add: exampleNote_def BOTTOM_ROW_def)
qed

text \<open>
  C10. After the physics step, if the updated \<open>currentNotes\<close> holds a visual note with
  \<open>position + 1 = BOTTOM_ROW\<close>, then \<open>noteCount\<close> is the old \<open>bonusActive\<close>; if it
  holds no such note, \<open>noteCount\<close> is unchanged.
\<close>

theorem tick_miss_penalty:
  "((\<exists>n \<in> set (currentNotes (tick s)). visual n \<and> position n + 1 = BOTTOM_ROW)
      \<longrightarrow> noteCount (tick s) = bonusActive s)
   \<and> (\<not> (\<exists>n \<in> set (currentNotes (tick s)). visual n \<and> position n + 1 = BOTTOM_ROW)
      \<longrightarrow> noteCount (tick s) = noteCount s)"
  by (auto simp: tick_noteCount filter_empty_conv filterCheck_def)

theorem tick_miss_penalty_witness:
  "noteCount (tick (initialState exampleRNG
       \<lparr>bonusActive := 100, noteCount := 130,
        currentNotes := [exampleNote 1 True 348 0]\<rparr>)) = 100
   \<and> noteCount (tick (initialState exampleRNG
       \<lparr>bonusActive := 100, noteCount := 130,
        currentNotes := [exampleNote 1 True 10 0]\<rparr>)) = 130"
  using
    tick_miss_penalty [of "initialState exampleRNG
       \<lparr>bonusActive := 100, noteCount := 130, currentNotes := [exampleNote 1 True 348 0]\<rparr>"]
    tick_miss_penalty [of "initialState exampleRNG
       \<lparr>bonusActive := 100, noteCount := 130, currentNotes := [exampleNote 1 True 10 0]\<rparr>"]
  by (simp add: tick_currentNotes untailed_below exampleNote_def BOTTOM_ROW_def)

section \<open>Claims about single actions\<close>

text \<open>
  C3, as stated: whenever the drain does not happen, the decay counter \<open>tickInterval\<close>
  goes up by one. It does not in the initial state, where \<open>bonusActive\<close> is 0: the counter
  stays 0.
\<close>

theorem TickGame_counter_counterexample:
  "\<not> (bonusActive (initialState exampleRNG) > 0
       \<and> tickInterval (initialState exampleRNG) \<noteq> 0
       \<and> js_rem (tickInterval (initialState exampleRNG)) (toInt32 (ddiv 2000 TICK_RATE_MS))
           = 0)
   \<and> tickInterval (TickGame_apply (initialState exampleRNG))
       \<noteq> tickInterval (initialState exampleRNG) + 1"
  by (simp add: TickGame_apply_def initialState_def Let_def)

text \<open>
  C3, amended. \<open>TickGame\<close> takes 50 from \<open>bonusActive\<close> and from the \<open>noteCount\<close> that
  the physics step returns, and sets \<open>tickInterval\<close> to 0, exactly when \<open>bonusActive > 0\<close>
  and \<open>tickInterval\<close> is a nonzero multiple of 285 (which is \<open>~~(2000 / TICK_RATE_MS)\<close>).
  Otherwise neither is drained; the counter goes up by one while \<open>bonusActive > 0\<close> and is
  set to 0 while it is not.
\<close>

theorem TickGame_decay:
  "(bonusActive s > 0 \<and> (\<exists>k::int. k \<noteq> 0 \<and> tickInterval s = 285 * of_int k) \<longrightarrow>
      bonusActive (TickGame_apply s) = bonusActive s - 50
      \<and> noteCount (TickGame_apply s) = noteCount (tick s) - 50
      \<and> tickInterval (TickGame_apply s) = 0)
   \<and> (bonusActive s > 0 \<and> \<not> (\<exists>k::int. k \<noteq> 0 \<and> tickInterval s = 285 * of_int k) \<longrightarrow>
      bonusActive (TickGame_apply s) = bonusActive s
      \<and> noteCount (TickGame_apply s) = noteCount (tick s)
      \<and> tickInterval (TickGame_apply s) = tickInterval s + 1)
   \<and> (\<not> bonusActive s > 0 \<longrightarrow>
      bonusActive (TickGame_apply s) = bonusActive s
      \<and> noteCount (TickGame_apply s) = noteCount (tick s)
      \<and> tickInterval (TickGame_apply s) = 0)"
proof -
  have cyc: "(tickInterval s \<noteq> 0 \<and> js_rem (tickInterval s) 285 = 0)
             \<longleftrightarrow> (\<exists>k::int. k \<noteq> 0 \<and> tickInterval s = 285 * of_int k)"
    by (auto simp: js_rem_zero_iff)
  show ?thesis
    unfolding cyc [symmetric]
    by (auto simp: TickGame_apply_def Let_def toInt32_cycle)
qed

theorem TickGame_decay_witness:
  "bonusActive (TickGame_apply (initialState exampleRNG
       \<lparr>bonusActive := 100, noteCount := 100, tickInterval := 285\<rparr>)) = 50
   \<and> noteCount (TickGame_apply (initialState exampleRNG
       \<lparr>bonusActive := 100, noteCount := 100, tickInterval := 285\<rparr>)) = 50
   \<and> tickInterval (TickGame_apply (initialState exampleRNG
       \<lparr>bonusActive := 100, noteCount := 100, tickInterval := 285\<rparr>)) = 0
   \<and> tickInterval (TickGame_apply (initialState exampleRNG
       \<lparr>bonusActive := 100, noteCount := 100, tickInterval := 7\<rparr>)) = 8
   \<and> tickInterval (TickGame_apply (initialState exampleRNG\<lparr>tickInterval := 7\<rparr>)) = 0"
proof -
  have a: "\<exists>k::int. k \<noteq> 0 \<and> (285::rat) = 285 * of_int k"
    by (rule exI [of _ 1]) simp
  have b: "\<not> (\<exists>k::int. k \<noteq> 0 \<and> (7::rat) = 285 * of_int k)"
  proof
    assume "\<exists>k::int. k \<noteq> 0 \<and> (7::rat) = 285 * of_int k"
    then obtain k :: int where "(7::rat) = 285 * of_int k" by blast
    then have "(of_int 7 :: rat) = of_int (285 * k)" by simp
    then have "7 = 285 * k" by (simp only: of_int_eq_iff)
    then show False by presburger
  qed
  show ?thesis
    using a b
      TickGame_decay [of "initialState exampleRNG
         \<lparr>bonusActive := 100, noteCount := 100, tickInterval := 285\<rparr>"]
      TickGame_decay [of "initialState exampleRNG
         \<lparr>bonusActive := 100, noteCount := 100, tickInterval := 7\<rparr>"]
      TickGame_decay [of "initialState exampleRNG\<lparr>tickInterval := 7\<rparr>"]
    by (simp add: initialState_def tick_noteCount tick_currentNotes)
qed

text \<open>
  C8, as stated: after every action \<open>RIPNotes\<close> is the \<open>currentNotes\<close> of the state
  before. It is not after \<open>NextNote\<close> on the initial state, and not after
  \<open>RandomiseNotes\<close> on a state with one live note and an empty \<open>RIPNotes\<close>.
\<close>

theorem RIPNotes_counterexample:
  "RIPNotes (applyAction exampleRNG (initialState exampleRNG)
       (NextNote [exampleNote 1 True 0 0]))
     \<noteq> currentNotes (initialState exampleRNG)
   \<and> RIPNotes (applyAction exampleRNG
        (initialState exampleRNG\<lparr>currentNotes := [exampleNote 1 True 1 0]\<rparr>) RandomiseNotes)
     \<noteq> currentNotes (initialState exampleRNG\<lparr>currentNotes := [exampleNote 1 True 1 0]\<rparr>)"
  by (simp add: NextNote_apply_def RandomiseNotes_apply_def tick_fields notesWithTail_def
        initialState_def)

text \<open>
  C8, amended. After \<open>ButtonClick\<close>, \<open>ButtonRelease\<close>, \<open>TickGame\<close> and \<open>GameEnd\<close>,
  \<open>RIPNotes\<close> is the \<open>currentNotes\<close> of the state before; after \<open>NextNote\<close> it is
  that list followed by the spawned batch; \<open>RandomiseNotes\<close> leaves \<open>RIPNotes\<close> as it was.
\<close>

theorem RIPNotes_after_action:
  "RIPNotes (applyAction R s a) =
     (case a of
        NextNote batch \<Rightarrow> currentNotes s @ notesWithTail R s batch
      | RandomiseNotes \<Rightarrow> RIPNotes s
      | _ \<Rightarrow> currentNotes s)"
  by (cases a)
     (simp_all add: ButtonClick_apply_def ButtonRelease_apply_def TickGame_apply_def
        GameEnd_apply_def NextNote_apply_def RandomiseNotes_apply_def tick_fields Let_def)

text \<open>
  C9. \<open>RandomiseNotes\<close> keeps the number and order of the notes; every note keeps its id,
  tail, special flag, position and visual flag, and differs from the old note in its column
  at most; a note that is not visual is unchanged; the seed advances once, whatever the
  number of notes.
\<close>

theorem RandomiseNotes_frame:
  "length (currentNotes (RandomiseNotes_apply R s)) = length (currentNotes s)
   \<and> (\<forall>i < length (currentNotes s).
         note_id (currentNotes (RandomiseNotes_apply R s) ! i) = note_id (currentNotes s ! i)
         \<and> tail (currentNotes (RandomiseNotes_apply R s) ! i) = tail (currentNotes s ! i)
         \<and> special (currentNotes (RandomiseNotes_apply R s) ! i) = special (currentNotes s ! i)
         \<and> position (currentNotes (RandomiseNotes_apply R s) ! i)
             = position (currentNotes s ! i)
         \<and> visual (currentNotes (RandomiseNotes_apply R s) ! i) = visual (currentNotes s ! i)
         \<and> currentNotes (RandomiseNotes_apply R s) ! i
             = (currentNotes s ! i)
                 \<lparr>column := column (currentNotes (RandomiseNotes_apply R s) ! i)\<rparr>
         \<and> (\<not> visual (currentNotes s ! i) \<longrightarrow>
               currentNotes (RandomiseNotes_apply R s) ! i = currentNotes s ! i))
   \<and> hash (RandomiseNotes_apply R s) = RNG_hash R (hash s)"
  by (simp add: RandomiseNotes_apply_def nth_enumerate_eq)

theorem RandomiseNotes_frame_witness:
  "length (currentNotes (RandomiseNotes_apply exampleRNG
       (initialState exampleRNG
          \<lparr>hash := 1, currentNotes := [exampleNote 1 True 5 0, exampleNote 2 False 7 1]\<rparr>))) = 2
   \<and> note_id (currentNotes (RandomiseNotes_apply exampleRNG
       (initialState exampleRNG
          \<lparr>hash := 1, currentNotes := [exampleNote 1 True 5 0, exampleNote 2 False 7 1]\<rparr>)) ! 0)
      = 1
   \<and> currentNotes (RandomiseNotes_apply exampleRNG
       (initialState exampleRNG
          \<lparr>hash := 1, currentNotes := [exampleNote 1 True 5 0, exampleNote 2 False 7 1]\<rparr>)) ! 1
      = exampleNote 2 False 7 1
   \<and> hash (RandomiseNotes_apply exampleRNG
       (initialState exampleRNG
          \<lparr>hash := 1, currentNotes := [exampleNote 1 True 5 0, exampleNote 2 False 7 1]\<rparr>))
      = 1103527590"
  using RandomiseNotes_frame [of exampleRNG
       "initialState exampleRNG
          \<lparr>hash := 1, currentNotes := [exampleNote 1 True 5 0, exampleNote 2 False 7 1]\<rparr>"]
  by (simp add: exampleNote_def exampleRNG_def js_rem_def trunc_def)

section \<open>Claims about presses and releases\<close>

lemma foldl_penalty:
  "foldl (\<lambda>acc n. if P n then dsub acc c else acc) a xs
     = afterPenalties (length (filter P xs)) c a"
  by (induction xs arbitrary: a) simp_all

lemma foldl_reset:
  "foldl (\<lambda>acc n. if P n then (b::rat) else acc) a xs = (if filter P xs = [] then a else b)"
proof (induction xs rule: rev_induct)
  case Nil
  show ?case by simp
next
  case (snoc x xs)
  then show ?case by simp
qed

lemma map_unchanged: "filter P xs = [] \<Longrightarrow> map (\<lambda>n. if P n then f n else n) xs = xs"
  by (induction xs) (auto split: if_splits)

text \<open>
  C5, as stated: a release subtracts exactly \<open>1 + 0.2 * floor(noteCount / 10)\<close> from
  \<open>scoreGained\<close> for each live tail. With \<open>noteCount = 11\<close>, \<open>scoreGained = 11\<close> and
  one live tail the difference would be 9.8; the source stores \<open>~~(11 - 1.2) = 9\<close>.
\<close>

theorem ButtonRelease_penalty_counterexample:
  "releasable 1 (sustainedNote 1 1 False)
   \<and> scoreGained (ButtonRelease_apply 1 (initialState exampleRNG
        \<lparr>noteCount := 11, scoreGained := 11, currentNotes := [sustainedNote 1 1 False]\<rparr>))
     \<noteq> scoreGained (initialState exampleRNG
        \<lparr>noteCount := 11, scoreGained := 11, currentNotes := [sustainedNote 1 1 False]\<rparr>)
       - (1 + (2 / 10) * of_int \<lfloor>noteCount (initialState exampleRNG
        \<lparr>noteCount := 11, scoreGained := 11, currentNotes := [sustainedNote 1 1 False]\<rparr>) / 10\<rfloor>)"
  by code_simp

text \<open>
  C5, amended. With \<open>k\<close> the number of notes of \<open>currentNotes\<close> that have a tail, the
  released column, \<open>visual = false\<close> and \<open>tail.dead = false\<close>: \<open>ButtonRelease\<close> marks
  the tail of each of them dead and leaves every other note as it is; the new score is
  \<open>~~\<close> of the old score after \<open>k\<close> subtractions, one after the other and each rounded
  to a double, of the penalty \<open>1 + 0.2 * floor(noteCount / 10)\<close> as the source computes
  it; \<open>noteCount\<close> becomes \<open>bonusActive\<close> if \<open>k > 0\<close>. If \<open>k = 0\<close>, the notes and the
  combo are unchanged and the score is \<open>~~scoreGained\<close>, which is \<open>scoreGained\<close> when
  that is a 32-bit integer. The roundings count: five tails released at combo 10 and score 7
  leave \<open>0.9999999999999993\<close>, stored as 0, where five times 1.2 from 7 leaves 1.
\<close>

theorem ButtonRelease_effect:
  "scoreGained (ButtonRelease_apply col s) =
     toInt32 (afterPenalties (length (filter (releasable col) (currentNotes s)))
                (releasePenalty (noteCount s)) (scoreGained s))
   \<and> noteCount (ButtonRelease_apply col s) =
       (if filter (releasable col) (currentNotes s) = [] then noteCount s else bonusActive s)
   \<and> length (currentNotes (ButtonRelease_apply col s)) = length (currentNotes s)
   \<and> (\<forall>i < length (currentNotes s).
         (releasable col (currentNotes s ! i) \<longrightarrow>
            (\<exists>t. tail (currentNotes s ! i) = Some t
                 \<and> currentNotes (ButtonRelease_apply col s) ! i
                     = (currentNotes s ! i)\<lparr>tail := Some (t\<lparr>dead := True\<rparr>)\<rparr>))
         \<and> (\<not> releasable col (currentNotes s ! i) \<longrightarrow>
              currentNotes (ButtonRelease_apply col s) ! i = currentNotes s ! i))
   \<and> (filter (releasable col) (currentNotes s) = [] \<longrightarrow>
         currentNotes (ButtonRelease_apply col s) = currentNotes s
         \<and> noteCount (ButtonRelease_apply col s) = noteCount s
         \<and> scoreGained (ButtonRelease_apply col s) = toInt32 (scoreGained s)
         \<and> (\<forall>z. scoreGained s = of_int z \<and> - 2147483648 \<le> z \<and> z < 2147483648 \<longrightarrow>
                scoreGained (ButtonRelease_apply col s) = scoreGained s))"
proof -
  have 1: "scoreGained (ButtonRelease_apply col s) =
     toInt32 (afterPenalties (length (filter (releasable col) (currentNotes s)))
                (releasePenalty (noteCount s)) (scoreGained s))"
    by (simp add: ButtonRelease_apply_def Let_def foldl_penalty releasePenalty_def)
  have 2: "noteCount (ButtonRelease_apply col s) =
       (if filter (releasable col) (currentNotes s) = [] then noteCount s else bonusActive s)"
    by (simp add: ButtonRelease_apply_def Let_def foldl_reset)
  have 3: "currentNotes (ButtonRelease_apply col s) =
      map (\<lambda>note. if releasable col note
                   then note\<lparr>tail := map_option (\<lambda>t. t\<lparr>dead := True\<rparr>) (tail note)\<rparr>
                   else note) (currentNotes s)"
    by (simp add: ButtonRelease_apply_def Let_def)
  have 4: "\<forall>i < length (currentNotes s).
         (releasable col (currentNotes s ! i) \<longrightarrow>
            (\<exists>t. tail (currentNotes s ! i) = Some t
                 \<and> currentNotes (ButtonRelease_apply col s) ! i
                     = (currentNotes s ! i)\<lparr>tail := Some (t\<lparr>dead := True\<rparr>)\<rparr>))
         \<and> (\<not> releasable col (currentNotes s ! i) \<longrightarrow>
              currentNotes (ButtonRelease_apply col s) ! i = currentNotes s ! i)"
    unfolding 3 by (auto simp: releasable_def split: option.splits)
  have 5: "filter (releasable col) (currentNotes s) = [] \<Longrightarrow>
         currentNotes (ButtonRelease_apply col s) = currentNotes s"
    unfolding 3 by (rule map_unchanged)
  have 6: "filter (releasable col) (currentNotes s) = [] \<Longrightarrow>
         scoreGained (ButtonRelease_apply col s) = toInt32 (scoreGained s)"
    unfolding 1 by simp
  from 1 2 3 4 5 6 show ?thesis
    by (auto simp: toInt32_of_int)
qed

theorem ButtonRelease_effect_witness:
  "scoreGained (ButtonRelease_apply 1 (initialState exampleRNG
      \<lparr>noteCount := 10, scoreGained := 7,
       currentNotes := [sustainedNote 1 1 False, sustainedNote 2 1 False,
          sustainedNote 3 1 False, sustainedNote 4 1 False, sustainedNote 5 1 False]\<rparr>)) = 0
   \<and> noteCount (ButtonRelease_apply 1 (initialState exampleRNG
      \<lparr>noteCount := 11, scoreGained := 11, currentNotes := [sustainedNote 1 1 False]\<rparr>)) = 0
   \<and> scoreGained (ButtonRelease_apply 1 (initialState exampleRNG
      \<lparr>noteCount := 11, scoreGained := 11, currentNotes := [sustainedNote 1 1 False]\<rparr>)) = 9
   \<and> currentNotes (ButtonRelease_apply 1 (initialState exampleRNG
      \<lparr>noteCount := 11, scoreGained := 11, currentNotes := [sustainedNote 1 1 False]\<rparr>)) ! 0
       = sustainedNote 1 1 True
   \<and> scoreGained (ButtonRelease_apply 2 (initialState exampleRNG
      \<lparr>noteCount := 11, scoreGained := 11, currentNotes := [sustainedNote 1 1 False]\<rparr>)) = 11
   \<and> currentNotes (ButtonRelease_apply 2 (initialState exampleRNG
      \<lparr>noteCount := 11, scoreGained := 11, currentNotes := [sustainedNote 1 1 False]\<rparr>))
       = [sustainedNote 1 1 False]"
proof -
  let ?five = "initialState exampleRNG
      \<lparr>noteCount := 10, scoreGained := 7,
       currentNotes := [sustainedNote 1 1 False, sustainedNote 2 1 False,
          sustainedNote 3 1 False, sustainedNote 4 1 False, sustainedNote 5 1 False]\<rparr>"
  let ?one = "initialState exampleRNG
      \<lparr>noteCount := 11, scoreGained := 11, currentNotes := [sustainedNote 1 1 False]\<rparr>"
  have e5: "toInt32 (afterPenalties 5 (releasePenalty 10) 7) = 0" by code_simp
  have e1: "toInt32 (afterPenalties 1 (releasePenalty 11) 11) = 9" by code_simp
  have f5: "length (filter (releasable 1) (currentNotes ?five)) = 5"
    by (simp add: releasable_def sustainedNote_def)
  have f1: "length (filter (releasable 1) (currentNotes ?one)) = 1"
    by (simp add: releasable_def sustainedNote_def)
  have f2: "filter (releasable 2) (currentNotes ?one) = []"
    by (simp add: releasable_def sustainedNote_def)
  have "scoreGained (ButtonRelease_apply 1 ?five) =
      toInt32 (afterPenalties (length (filter (releasable 1) (currentNotes ?five)))
                 (releasePenalty (noteCount ?five)) (scoreGained ?five))"
    using ButtonRelease_effect [of 1 ?five] by blast
  then have a: "scoreGained (ButtonRelease_apply 1 ?five) = 0"
    using f5 e5 by (simp add: initialState_def)
  have "scoreGained (ButtonRelease_apply 1 ?one) =
      toInt32 (afterPenalties (length (filter (releasable 1) (currentNotes ?one)))
                 (releasePenalty (noteCount ?one)) (scoreGained ?one))"
    using ButtonRelease_effect [of 1 ?one] by blast
  then have b1: "scoreGained (ButtonRelease_apply 1 ?one) = 9"
    using f1 e1 by (simp add: initialState_def)
  have "noteCount (ButtonRelease_apply 1 ?one) =
      (if filter (releasable 1) (currentNotes ?one) = [] then noteCount ?one
       else bonusActive ?one)"
    using ButtonRelease_effect [of 1 ?one] by blast
  moreover have "filter (releasable 1) (currentNotes ?one) \<noteq> []"
    by (simp add: releasable_def sustainedNote_def)
  ultimately have b2: "noteCount (ButtonRelease_apply 1 ?one) = 0"
    by (simp add: initialState_def)
  have "\<forall>i < length (currentNotes ?one).
         (releasable 1 (currentNotes ?one ! i) \<longrightarrow>
            (\<exists>t. tail (currentNotes ?one ! i) = Some t
                 \<and> currentNotes (ButtonRelease_apply 1 ?one) ! i
                     = (currentNotes ?one ! i)\<lparr>tail := Some (t\<lparr>dead := True\<rparr>)\<rparr>))"
    using ButtonRelease_effect [of 1 ?one] by blast
  then have c: "currentNotes (ButtonRelease_apply 1 ?one) ! 0 = sustainedNote 1 1 True"
    by (simp add: releasable_def sustainedNote_def)
  have "filter (releasable 2) (currentNotes ?one) = [] \<longrightarrow>
         currentNotes (ButtonRelease_apply 2 ?one) = currentNotes ?one
         \<and> (\<forall>z. scoreGained ?one = of_int z \<and> - 2147483648 \<le> z \<and> z < 2147483648 \<longrightarrow>
                scoreGained (ButtonRelease_apply 2 ?one) = scoreGained ?one)"
    using ButtonRelease_effect [of 2 ?one] by blast
  with f2 have "currentNotes (ButtonRelease_apply 2 ?one) = currentNotes ?one"
    and "scoreGained ?one = of_int 11 \<and> - 2147483648 \<le> (11::int) \<and> (11::int) < 2147483648 \<longrightarrow>
                scoreGained (ButtonRelease_apply 2 ?one) = scoreGained ?one"
    by blast+
  then have d: "scoreGained (ButtonRelease_apply 2 ?one) = 11
      \<and> currentNotes (ButtonRelease_apply 2 ?one) = [sustainedNote 1 1 False]"
    by simp
  from a b1 b2 c d show ?thesis by blast
qed

text \<open>
  C2, as stated: a matched normal note increases \<open>scoreGained\<close> by exactly
  \<open>1 + 0.2 * floor(comboCount / 10)\<close>. With \<open>noteCount = 10\<close>, \<open>scoreGained = 10\<close> and
  one normal note in the hit window the increase would be 1.2; the source stores
  \<open>~~(10 + 1.2) = 11\<close>.
\<close>

theorem ButtonClick_score_counterexample:
  "pressable 0 (exampleNote 1 True 349 0) \<and> \<not> special (exampleNote 1 True 349 0)
   \<and> scoreGained (ButtonClick_apply exampleRNG 0 (initialState exampleRNG
        \<lparr>noteCount := 10, scoreGained := 10, currentNotes := [exampleNote 1 True 349 0]\<rparr>))
     \<noteq> scoreGained (initialState exampleRNG
        \<lparr>noteCount := 10, scoreGained := 10, currentNotes := [exampleNote 1 True 349 0]\<rparr>)
       + (1 + (2 / 10) * of_int \<lfloor>noteCount (initialState exampleRNG
        \<lparr>noteCount := 10, scoreGained := 10, currentNotes := [exampleNote 1 True 349 0]\<rparr>) / 10\<rfloor>)"
  by code_simp

lemma comboGain_snoc:
  "comboGain col (ns @ [n]) =
     comboGain col ns
     + (if pressable col n then (if special n then 100 else 1) else 0)"
  by (simp add: comboGain_def)

lemma foldl_clickStep:
  "specialGained (foldl (clickStep col) acc ns) =
     specialGained acc
     + 100 * of_nat (length (filter (\<lambda>n. pressable col n \<and> special n) ns))
   \<and> notePressed (foldl (clickStep col) acc ns) = notePressed acc + comboGain col ns
   \<and> (triggered (foldl (clickStep col) acc ns) \<longleftrightarrow>
        triggered acc \<or> (\<exists>n \<in> set ns. pressable col n))"
proof (induction ns rule: rev_induct)
  case Nil
  show ?case by (simp add: comboGain_def)
next
  case (snoc n ns)
  then show ?case
    by (auto simp: clickStep_def comboGain_snoc)
qed

lemma foldl_clickStep_score:
  "i \<le> length ns \<Longrightarrow>
   acc_scoreGained (foldl (clickStep col) acc (take i ns)) =
     runningScore col (notePressed acc) (acc_scoreGained acc) ns i"
proof (induction i)
  case 0
  show ?case by simp
next
  case (Suc i)
  then have i: "i < length ns" by simp
  then have t: "take (Suc i) ns = take i ns @ [ns ! i]" by (rule take_Suc_conv_app_nth)
  define A where "A = foldl (clickStep col) acc (take i ns)"
  from Suc have ih: "acc_scoreGained A =
     runningScore col (notePressed acc) (acc_scoreGained acc) ns i" by (simp add: A_def)
  have np: "notePressed A = notePressed acc + comboGain col (take i ns)"
    using foldl_clickStep [of col acc "take i ns"] by (simp add: A_def)
  have "acc_scoreGained (foldl (clickStep col) acc (take (Suc i) ns))
          = acc_scoreGained (clickStep col A (ns ! i))"
    unfolding t A_def by simp
  also have "\<dots> = runningScore col (notePressed acc) (acc_scoreGained acc) ns (Suc i)"
    by (simp add: clickStep_def ih np hitGain_def)
  finally show ?case .
qed

lemma hitGain_zero: "hitGain 0 = 1"
proof -
  have "round53 (of_int 1) = of_int 1" by (rule round53_of_int) simp
  then show ?thesis
    by (simp add: hitGain_def ddiv_def dmul_def dadd_def toInt32_def trunc_def)
qed

text \<open>
  C2, amended. On \<open>ButtonClick\<close>, with the matched notes those that are visual, in the
  pressed column and in the hit window: \<open>bonusActive\<close> grows by 100 for each matched
  special note; if there is a matched note, \<open>noteCount\<close> grows by 100 for each matched
  special note and by 1 for each matched normal note; the new score is \<open>~~\<close> of the
  running total that starts at the old score and grows, at each matched normal note in the
  order of \<open>currentNotes\<close>, by \<open>1 + 0.2 * ~~(combo / 10)\<close> with the combo reached before
  that note, every operation rounded to a double (special notes add nothing); every matched
  note, and no other, has its \<open>visual\<close> flag set to false. With combo 0 and a score that
  is a 32-bit integer below the maximum, a single normal hit increases the score by exactly
  1. The roundings count: three normal hits at combo 19 and score 19 give
  \<open>22.999999999999996\<close>, stored as 22.
\<close>

theorem ButtonClick_hits:
  "bonusActive (ButtonClick_apply R col s) =
     bonusActive s
     + 100 * of_nat (length (filter (\<lambda>n. pressable col n \<and> special n) (currentNotes s)))
   \<and> ((\<exists>n \<in> set (currentNotes s). pressable col n) \<longrightarrow>
        noteCount (ButtonClick_apply R col s) = noteCount s + comboGain col (currentNotes s))
   \<and> scoreGained (ButtonClick_apply R col s) =
       toInt32 (runningScore col (noteCount s) (scoreGained s) (currentNotes s)
                  (length (currentNotes s)))
   \<and> length (currentNotes (ButtonClick_apply R col s)) = length (currentNotes s)
   \<and> (\<forall>i < length (currentNotes s).
         currentNotes (ButtonClick_apply R col s) ! i =
           (if pressable col (currentNotes s ! i)
            then (currentNotes s ! i)\<lparr>visual := False\<rparr> else currentNotes s ! i))
   \<and> (\<forall>n z. currentNotes s = [n] \<and> pressable col n \<and> \<not> special n \<and> noteCount s = 0
            \<and> scoreGained s = of_int z \<and> - 2147483648 \<le> z \<and> z < 2147483647 \<longrightarrow>
            scoreGained (ButtonClick_apply R col s) = scoreGained s + 1)"
proof -
  let ?init = "\<lparr>triggered = False, acc_scoreGained = scoreGained s,
                notePressed = noteCount s, specialGained = bonusActive s\<rparr>"
  note f = foldl_clickStep [of col ?init "currentNotes s"]
  have 1: "bonusActive (ButtonClick_apply R col s) =
     bonusActive s
     + 100 * of_nat (length (filter (\<lambda>n. pressable col n \<and> special n) (currentNotes s)))"
    using f by (simp add: ButtonClick_apply_def Let_def)
  have 2: "(\<exists>n \<in> set (currentNotes s). pressable col n) \<Longrightarrow>
        noteCount (ButtonClick_apply R col s) = noteCount s + comboGain col (currentNotes s)"
    using f by (simp add: ButtonClick_apply_def Let_def)
  have 3: "scoreGained (ButtonClick_apply R col s) =
       toInt32 (runningScore col (noteCount s) (scoreGained s) (currentNotes s)
                  (length (currentNotes s)))"
    using foldl_clickStep_score [of "length (currentNotes s)" "currentNotes s" col ?init]
    by (simp add: ButtonClick_apply_def Let_def)
  have 4: "currentNotes (ButtonClick_apply R col s) =
       map (\<lambda>note. if pressable col note then note\<lparr>visual := False\<rparr> else note)
           (currentNotes s)"
    by (simp add: ButtonClick_apply_def Let_def)
  have 5: "scoreGained (ButtonClick_apply R col s) = scoreGained s + 1"
    if "currentNotes s = [n]" "pressable col n" "\<not> special n" "noteCount s = 0"
       "scoreGained s = of_int z" "- 2147483648 \<le> z" "z < 2147483647" for n z
  proof -
    have "\<bar>z + 1\<bar> < 2 ^ 53" using that by simp
    then have r: "round53 (of_int (z + 1)) = of_int (z + 1)" by (rule round53_of_int)
    have "runningScore col 0 (of_int z) [n] (Suc 0) = dadd (of_int z) 1"
      using that by (simp add: comboGain_def hitGain_zero)
    also have "\<dots> = of_int (z + 1)" using r by (simp add: dadd_def)
    finally have "scoreGained (ButtonClick_apply R col s) = toInt32 (of_int (z + 1))"
      using that 3 by simp
    also have "\<dots> = of_int (z + 1)"
      using that by (intro toInt32_of_int) simp_all
    finally show ?thesis using that by simp
  qed
  have 6: "length (currentNotes (ButtonClick_apply R col s)) = length (currentNotes s)"
    unfolding 4 by simp
  have 7: "\<forall>i < length (currentNotes s).
         currentNotes (ButtonClick_apply R col s) ! i =
           (if pressable col (currentNotes s ! i)
            then (currentNotes s ! i)\<lparr>visual := False\<rparr> else currentNotes s ! i)"
    unfolding 4 by simp
  from 1 2 3 5 6 7 show ?thesis by blast
qed

theorem ButtonClick_hits_witness:
  "scoreGained (ButtonClick_apply exampleRNG 0 (initialState exampleRNG
      \<lparr>noteCount := 19, scoreGained := 19,
       currentNotes := [exampleNote 1 True 349 0, exampleNote 2 True 340 0,
                        exampleNote 3 True 320 0]\<rparr>)) = 22
   \<and> bonusActive (ButtonClick_apply exampleRNG 0 (initialState exampleRNG
      \<lparr>noteCount := 9, scoreGained := 9,
       currentNotes := [exampleNote 1 True 349 0, (exampleNote 2 True 320 0)\<lparr>special := True\<rparr>,
                        exampleNote 3 True 330 0, exampleNote 4 True 330 1]\<rparr>)) = 100
   \<and> noteCount (ButtonClick_apply exampleRNG 0 (initialState exampleRNG
      \<lparr>noteCount := 9, scoreGained := 9,
       currentNotes := [exampleNote 1 True 349 0, (exampleNote 2 True 320 0)\<lparr>special := True\<rparr>,
                        exampleNote 3 True 330 0, exampleNote 4 True 330 1]\<rparr>)) = 111
   \<and> currentNotes (ButtonClick_apply exampleRNG 0 (initialState exampleRNG
      \<lparr>noteCount := 9, scoreGained := 9,
       currentNotes := [exampleNote 1 True 349 0, (exampleNote 2 True 320 0)\<lparr>special := True\<rparr>,
                        exampleNote 3 True 330 0, exampleNote 4 True 330 1]\<rparr>)) ! 2
       = exampleNote 3 False 330 0
   \<and> scoreGained (ButtonClick_apply exampleRNG 0 (initialState exampleRNG
      \<lparr>currentNotes := [exampleNote 1 True 349 0]\<rparr>)) = 1"
proof -
  let ?ns = "[exampleNote 1 True 349 0, (exampleNote 2 True 320 0)\<lparr>special := True\<rparr>,
              exampleNote 3 True 330 0, exampleNote 4 True 330 1]"
  let ?s = "initialState exampleRNG\<lparr>noteCount := 9, scoreGained := 9, currentNotes := ?ns\<rparr>"
  let ?v = "initialState exampleRNG
      \<lparr>noteCount := 19, scoreGained := 19,
       currentNotes := [exampleNote 1 True 349 0, exampleNote 2 True 340 0,
                        exampleNote 3 True 320 0]\<rparr>"
  let ?u = "initialState exampleRNG\<lparr>currentNotes := [exampleNote 1 True 349 0]\<rparr>"
  note ev = initialState_def exampleNote_def pressable_def comboGain_def
    BOTTOM_ROW_def POSITION_THRESHOLD_def
  have run: "toInt32 (runningScore 0 19 19
                [exampleNote 1 True 349 0, exampleNote 2 True 340 0, exampleNote 3 True 320 0]
                3) = 22"
    by code_simp
  have "scoreGained (ButtonClick_apply exampleRNG 0 ?v) =
       toInt32 (runningScore 0 (noteCount ?v) (scoreGained ?v) (currentNotes ?v)
                  (length (currentNotes ?v)))"
    using ButtonClick_hits [of exampleRNG 0 ?v] by blast
  moreover have "noteCount ?v = 19" and "scoreGained ?v = 19"
    and "currentNotes ?v
         = [exampleNote 1 True 349 0, exampleNote 2 True 340 0, exampleNote 3 True 320 0]"
    and "length [exampleNote 1 True 349 0, exampleNote 2 True 340 0, exampleNote 3 True 320 0]
         = 3"
    by (simp_all add: initialState_def)
  ultimately have v: "scoreGained (ButtonClick_apply exampleRNG 0 ?v) = 22"
    using run by (simp only:)
  have hit: "\<exists>n \<in> set (currentNotes ?s). pressable 0 n" by (simp add: ev)
  have a: "bonusActive (ButtonClick_apply exampleRNG 0 ?s) = 100"
    using ButtonClick_hits [of exampleRNG 0 ?s] by (simp add: ev)
  have "(\<exists>n \<in> set (currentNotes ?s). pressable 0 n) \<longrightarrow>
        noteCount (ButtonClick_apply exampleRNG 0 ?s) = noteCount ?s + comboGain 0 (currentNotes ?s)"
    using ButtonClick_hits [of exampleRNG 0 ?s] by blast
  with hit have "noteCount (ButtonClick_apply exampleRNG 0 ?s)
                 = noteCount ?s + comboGain 0 (currentNotes ?s)" by blast
  then have b: "noteCount (ButtonClick_apply exampleRNG 0 ?s) = 111"
    by (simp add: ev)
  have "\<forall>i < length (currentNotes ?s).
          currentNotes (ButtonClick_apply exampleRNG 0 ?s) ! i =
            (if pressable 0 (currentNotes ?s ! i)
             then (currentNotes ?s ! i)\<lparr>visual := False\<rparr> else currentNotes ?s ! i)"
    using ButtonClick_hits [of exampleRNG 0 ?s] by blast
  then have "currentNotes (ButtonClick_apply exampleRNG 0 ?s) ! 2 =
            (if pressable 0 (currentNotes ?s ! 2)
             then (currentNotes ?s ! 2)\<lparr>visual := False\<rparr> else currentNotes ?s ! 2)"
    by simp
  then have d: "currentNotes (ButtonClick_apply exampleRNG 0 ?s) ! 2 = exampleNote 3 False 330 0"
    by (simp add: ev)
  have "\<forall>n z. currentNotes ?u = [n] \<and> pressable 0 n \<and> \<not> special n \<and> noteCount ?u = 0
            \<and> scoreGained ?u = of_int z \<and> - 2147483648 \<le> z \<and> z < 2147483647 \<longrightarrow>
            scoreGained (ButtonClick_apply exampleRNG 0 ?u) = scoreGained ?u + 1"
    using ButtonClick_hits [of exampleRNG 0 ?u] by blast
  then have "currentNotes ?u = [exampleNote 1 True 349 0]
      \<and> pressable 0 (exampleNote 1 True 349 0) \<and> \<not> special (exampleNote 1 True 349 0)
      \<and> noteCount ?u = 0 \<and> scoreGained ?u = of_int 0 \<and> - 2147483648 \<le> (0::int)
      \<and> (0::int) < 2147483647 \<longrightarrow>
            scoreGained (ButtonClick_apply exampleRNG 0 ?u) = scoreGained ?u + 1"
    by blast
  then have e: "scoreGained (ButtonClick_apply exampleRNG 0 ?u) = 1"
    by (simp add: ev)
  from v a b d e show ?thesis by blast
qed

section \<open>Claims about spawning\<close>

lemma round53_one_minus:
  assumes fp: "round53 L = L" and lo: "1 \<le> L" and hi: "L < 2 ^ 53"
  shows "round53 (1 - L) = 1 - L"
proof -
  define e where "e = expo L"
  from lo have pos: "0 < L" by simp
  note b = expo_bounds [OF pos, folded e_def]
  from b(1) hi have "(2::rat) powi e < 2 powi 53" by simp
  then have e53: "e < 53" by (simp only: pow2_less_iff)
  from lo b(2) have "(2::rat) powi 0 < 2 powi (e + 1)" by simp
  then have e0: "0 \<le> e" by (simp only: pow2_less_iff)
  from double_on_grid [OF fp b(1) b(2)] e0
  obtain m :: int where L: "L = of_int m * 2 powi (e - 52)"
    and m: "2 ^ 52 \<le> m" "m < 2 ^ 53" by auto
  define P :: int where "P = 2 ^ nat (52 - e)"
  have P1: "1 \<le> P" by (simp add: P_def)
  have "52 - e \<le> 52" using e0 by simp
  then have "nat (52 - e) \<le> 52" by simp
  then have "(2::int) ^ nat (52 - e) \<le> 2 ^ 52" by (rule power_increasing) simp
  then have P2: "P \<le> 2 ^ 52" by (simp add: P_def)
  have "(1::rat) = 2 powi ((52 - e) + (e - 52))" by simp
  also have "\<dots> = 2 powi (52 - e) * 2 powi (e - 52)" by (rule power_int_add) simp
  also have "\<dots> = of_int P * 2 powi (e - 52)"
    using e53 by (simp only: P_def pow2_nonneg_exp)
  finally have one: "(1::rat) = of_int P * 2 powi (e - 52)" .
  have "1 - L = of_int P * 2 powi (e - 52) - of_int m * 2 powi (e - 52)"
    using one L by simp
  also have "\<dots> = of_int (P - m) * 2 powi (e - 52)" by (simp add: algebra_simps)
  finally have d: "1 - L = of_int (P - m) * 2 powi (e - 52)" .
  have "\<bar>P - m\<bar> < 2 ^ 53" using P1 P2 m by simp
  moreover have "- 1074 \<le> e - 52" using e0 by simp
  ultimately show ?thesis unfolding d by (rule round53_grid)
qed

lemma tail_after_spawn_tick:
  assumes "1000 < d" and "d \<le> 2 ^ 53"
  shows "dadd (dsub 0 (ddiv d TICK_RATE_MS)) 1 = 1 - ddiv d TICK_RATE_MS"
proof -
  define L where "L = ddiv d TICK_RATE_MS"
  have fp: "round53 L = L" by (simp add: L_def ddiv_def)
  have one: "round53 1 = 1" using round53_of_int [of 1] by simp
  have top: "round53 2251799813685248 = 2251799813685248"
    using round53_of_int [of 2251799813685248] by simp
  from assms(1) have "1 \<le> d / 7" by simp
  then have "round53 1 \<le> round53 (d / 7)" by (rule round53_mono)
  then have lo: "1 \<le> L" by (simp add: L_def ddiv_def TICK_RATE_MS_def one)
  from assms(2) have "d / 7 \<le> 2251799813685248" by simp
  then have "round53 (d / 7) \<le> round53 2251799813685248" by (rule round53_mono)
  then have hi: "L < 2 ^ 53" by (simp add: L_def ddiv_def TICK_RATE_MS_def top)
  have "dsub 0 L = - L" using fp by (simp add: dsub_def round53_minus)
  then have "dadd (dsub 0 L) 1 = round53 (1 - L)" by (simp add: dadd_def)
  also have "\<dots> = 1 - L" using fp lo hi by (rule round53_one_minus)
  finally show ?thesis by (simp only: L_def)
qed

lemma toInt32_small: "0 \<le> y \<Longrightarrow> y < 2147483648 \<Longrightarrow> toInt32 y = of_int \<lfloor>y\<rfloor>"
proof -
  assume a: "0 \<le> y" "y < 2147483648"
  then have "0 \<le> \<lfloor>y\<rfloor>" and "\<lfloor>y\<rfloor> < 2147483648" by (simp_all add: floor_less_iff)
  then have "\<lfloor>y\<rfloor> mod 4294967296 = \<lfloor>y\<rfloor>" by simp
  with a \<open>\<lfloor>y\<rfloor> < 2147483648\<close> show ?thesis by (simp add: toInt32_def trunc_def Let_def)
qed

lemma below_threshold: "round53 (8106479329266892 / 9007199254740992 * 100) < 90"
  by code_simp

lemma special_threshold:
  assumes "0 \<le> u" and "u < 1" and fp: "round53 u = u"
  shows "toInt32 (dmul u 100) \<ge> BONUS_NOTES_PERCENTAGE \<longleftrightarrow> 9 / 10 \<le> u"
proof -
  have r0: "0 \<le> round53 (u * 100)" using assms(1) by (intro round53_nonneg) simp
  have c: "round53 100 = 100" using round53_of_int [of 100] by simp
  from assms(2) have "u * 100 \<le> 100" by simp
  then have "round53 (u * 100) \<le> round53 100" by (rule round53_mono)
  then have r1: "round53 (u * 100) \<le> 100" by (simp add: c)
  have t: "toInt32 (dmul u 100) = of_int \<lfloor>round53 (u * 100)\<rfloor>"
    unfolding dmul_def using r0 r1 by (intro toInt32_small) simp_all
  have iff: "toInt32 (dmul u 100) \<ge> BONUS_NOTES_PERCENTAGE \<longleftrightarrow> 90 \<le> round53 (u * 100)"
    unfolding t BONUS_NOTES_PERCENTAGE_def by (simp add: le_floor_iff)
  show ?thesis
  proof (cases "9 / 10 \<le> u")
    case True
    have n: "round53 90 = 90" using round53_of_int [of 90] by simp
    from True have "90 \<le> u * 100" by simp
    then have "round53 90 \<le> round53 (u * 100)" by (rule round53_mono)
    with True iff n show ?thesis by simp
  next
    case False
    have "round53 (u * 100) < 90"
    proof (cases "1 / 2 \<le> u")
      case True
      have "(2::rat) powi (- 1) \<le> u" using True by (simp add: power_int_minus_divide)
      moreover have "u < 2 powi (- 1 + 1)" using assms(2) by simp
      ultimately obtain m :: int where u: "u = of_int m * 2 powi (- 1 - 52)"
        using double_on_grid [OF fp, of "- 1"] by auto
      then have um: "u = of_int m / 9007199254740992"
        by (simp add: power_int_minus_divide)
      with False have "of_int m / 9007199254740992 < (9 / 10 :: rat)" by simp
      then have "(of_int (10 * m) :: rat) < of_int 81064793292668928" by (simp add: field_simps)
      then have "10 * m < 81064793292668928" by (simp only: of_int_less_iff)
      then have "m \<le> 8106479329266892" by simp
      then have "(of_int m :: rat) \<le> of_int 8106479329266892" by (simp only: of_int_le_iff)
      then have "u * 100 \<le> 8106479329266892 / 9007199254740992 * 100"
        unfolding um by simp
      then have "round53 (u * 100) \<le> round53 (8106479329266892 / 9007199254740992 * 100)"
        by (rule round53_mono)
      with below_threshold show ?thesis by simp
    next
      case False
      have f: "round53 50 = 50" using round53_of_int [of 50] by simp
      from False have "u * 100 \<le> 50" by simp
      then have "round53 (u * 100) \<le> round53 50" by (rule round53_mono)
      then show ?thesis by (simp add: f)
    qed
    with False iff show ?thesis by simp
  qed
qed

lemma set_map_filter:
  "set (List.map_filter f xs) = {y. \<exists>x \<in> set xs. f x = Some y}"
  by (induction xs) (auto split: option.splits)

lemma updatePosition_kept:
  assumes "fst (updatePositionForGame m) = Some m'"
  shows "note_id m' = note_id m \<and> (tail m' = None \<longleftrightarrow> tail m = None)"
proof (cases "tail m")
  case None
  with assms show ?thesis
    by (auto simp: updatePositionForGame_def updateNotePosition_def Let_def split: if_splits)
next
  case (Some t)
  with assms show ?thesis
    by (auto simp: updatePositionForGame_def updateNotePosition_def Let_def split: if_splits)
qed

lemma notesWithTail_nth:
  assumes "i < length batch"
  shows "(tail (notesWithTail R s batch ! i) \<noteq> None \<longleftrightarrow>
            visual (batch ! i) \<and> dsub (end_t (batch ! i)) (start (batch ! i)) > 1000)
         \<and> (\<forall>t. tail (notesWithTail R s batch ! i) = Some t \<longrightarrow>
               tailEnd t = position (batch ! i)
               \<and> tailStart t =
                   dsub (position (batch ! i))
                        (ddiv (dsub (end_t (batch ! i)) (start (batch ! i))) TICK_RATE_MS)
               \<and> dead t = False)
         \<and> (tail (notesWithTail R s batch ! i) = None \<longrightarrow>
               (special (notesWithTail R s batch ! i) \<longleftrightarrow>
                  toInt32 (dmul (RNG_scale R (hash s)) 100) \<ge> BONUS_NOTES_PERCENTAGE))
         \<and> note_id (notesWithTail R s batch ! i) = note_id (batch ! i)
         \<and> visual (notesWithTail R s batch ! i) = visual (batch ! i)
         \<and> position (notesWithTail R s batch ! i) = position (batch ! i)"
  using assms by (simp add: notesWithTail_def Let_def)

lemma tail_length_at_top:
  "tailEnd t = 0 \<Longrightarrow> tailStart t = dsub 0 (ddiv d TICK_RATE_MS) \<Longrightarrow>
   tailEnd t - tailStart t = ddiv d TICK_RATE_MS"
  by (simp add: dsub_def ddiv_def round53_minus)

lemma NextNote_currentNotes:
  "currentNotes (NextNote_apply R batch s) =
     currentNotes (tick s)
     @ currentNotes (tick (s\<lparr>currentNotes := notesWithTail R s batch\<rparr>))"
  by (simp add: NextNote_apply_def tick_currentNotes map_filter_append)

lemma spawned_tail_tick:
  assumes u: "fst (updatePositionForGame m) = Some m'" and v: "visual m"
    and t: "tail m = Some \<lparr>tailStart = dsub 0 (ddiv d TICK_RATE_MS), tailEnd = 0, dead = False\<rparr>"
    and d: "1000 < d" "d \<le> 2 ^ 53"
    and t': "tail m' = Some t'"
  shows "tailEnd t' - tailStart t' = ddiv d TICK_RATE_MS"
proof -
  note a = tail_after_spawn_tick [OF d]
  from u v t t' have "tailEnd t' = 1 \<and> tailStart t' = dadd (dsub 0 (ddiv d TICK_RATE_MS)) 1"
    by (auto simp: updatePositionForGame_def updateNotePosition_def updateTail_def Let_def
          TICK_UNIT_INCREMENT_def BOTTOM_ROW_def split: if_splits)
  with a show ?thesis by simp
qed

lemma spawned_after_tick:
  assumes "m' \<in> set (currentNotes (tick (s\<lparr>currentNotes := notesWithTail R s batch\<rparr>)))"
  shows "\<exists>i < length batch.
           note_id m' = note_id (batch ! i)
           \<and> (tail m' \<noteq> None \<longleftrightarrow>
                visual (batch ! i) \<and> dsub (end_t (batch ! i)) (start (batch ! i)) > 1000)
           \<and> (position (batch ! i) = 0 \<and> dsub (end_t (batch ! i)) (start (batch ! i)) \<le> 2 ^ 53
                \<longrightarrow> (\<forall>t. tail m' = Some t \<longrightarrow>
                       tailEnd t - tailStart t
                         = ddiv (dsub (end_t (batch ! i)) (start (batch ! i))) TICK_RATE_MS))"
proof -
  from assms obtain m where m: "m \<in> set (notesWithTail R s batch)"
      and u: "fst (updatePositionForGame m) = Some m'"
    by (auto simp: tick_currentNotes set_map_filter)
  from m obtain i where i: "i < length batch" and mi: "m = notesWithTail R s batch ! i"
    by (auto simp: in_set_conv_nth notesWithTail_def)
  define d where "d = dsub (end_t (batch ! i)) (start (batch ! i))"
  note k = updatePosition_kept [OF u]
  note w = notesWithTail_nth [OF i, of R s, folded mi d_def]
  have 1: "tail m' \<noteq> None \<longleftrightarrow> visual (batch ! i) \<and> d > 1000"
    using k w by simp
  have 2: "tailEnd t' - tailStart t' = ddiv d TICK_RATE_MS"
    if p: "position (batch ! i) = 0" and b: "d \<le> 2 ^ 53" and t': "tail m' = Some t'" for t'
  proof -
    from t' k obtain t where t: "tail m = Some t" by auto
    with w have v: "visual m" and dd: "1000 < d" by simp_all
    from w t p have "t = \<lparr>tailStart = dsub 0 (ddiv d TICK_RATE_MS), tailEnd = 0, dead = False\<rparr>"
      by simp
    with t have "tail m = Some \<lparr>tailStart = dsub 0 (ddiv d TICK_RATE_MS), tailEnd = 0,
                                 dead = False\<rparr>" by simp
    from spawned_tail_tick [OF u v this dd b t'] show ?thesis .
  qed
  have 3: "note_id m' = note_id (batch ! i)" using k w by simp
  show ?thesis
  proof (intro exI conjI)
    show "i < length batch" by (rule i)
    show "note_id m' = note_id (batch ! i)" by (rule 3)
    show "tail m' \<noteq> None \<longleftrightarrow>
            visual (batch ! i) \<and> dsub (end_t (batch ! i)) (start (batch ! i)) > 1000"
      using 1 by (simp only: d_def)
    show "position (batch ! i) = 0 \<and> dsub (end_t (batch ! i)) (start (batch ! i)) \<le> 2 ^ 53
            \<longrightarrow> (\<forall>t. tail m' = Some t \<longrightarrow>
                   tailEnd t - tailStart t
                     = ddiv (dsub (end_t (batch ! i)) (start (batch ! i))) TICK_RATE_MS)"
      using 2 unfolding d_def by blast
  qed
qed

lemma tick_tail_origin:
  assumes "m' \<in> set (currentNotes (tick s))" and "tail m' \<noteq> None"
  shows "\<exists>m \<in> set (currentNotes s). note_id m = note_id m' \<and> tail m \<noteq> None"
proof -
  from assms(1) obtain m where m: "m \<in> set (currentNotes s)"
      and u: "fst (updatePositionForGame m) = Some m'"
    by (auto simp: tick_currentNotes set_map_filter)
  from updatePosition_kept [OF u] assms(2) m show ?thesis by auto
qed

lemma map_tail_origin:
  assumes "m' \<in> set (map f xs)" and "tail m' \<noteq> None"
    and "\<And>x. note_id (f x) = note_id x" and "\<And>x. tail (f x) \<noteq> None \<Longrightarrow> tail x \<noteq> None"
  shows "\<exists>m \<in> set xs. note_id m = note_id m' \<and> tail m \<noteq> None"
proof -
  from assms(1) obtain x where x: "x \<in> set xs" and m: "m' = f x" by auto
  have "note_id x = note_id m'" using assms(3) [of x] m by simp
  moreover have "tail x \<noteq> None" using assms(2) assms(4) [of x] m by simp
  ultimately show ?thesis using x by blast
qed

lemma action_tail_origin:
  assumes "m' \<in> set (currentNotes (applyAction R s a))" and "tail m' \<noteq> None"
  shows "(\<exists>m \<in> set (currentNotes s). note_id m = note_id m' \<and> tail m \<noteq> None)
         \<or> (\<exists>b. a = NextNote b
                \<and> (\<exists>m \<in> set b. note_id m = note_id m' \<and> visual m
                                 \<and> dsub (end_t m) (start m) > 1000))"
proof (cases a)
  case (ButtonClick col)
  with assms have "m' \<in> set (map (\<lambda>note. if pressable col note
                                         then note\<lparr>visual := False\<rparr> else note)
                                (currentNotes s))"
    by (simp add: ButtonClick_apply_def Let_def)
  then have "\<exists>m \<in> set (currentNotes s). note_id m = note_id m' \<and> tail m \<noteq> None"
    using assms(2) by (rule map_tail_origin) (simp_all split: if_splits)
  then show ?thesis by (rule disjI1)
next
  case (ButtonRelease col)
  with assms have "m' \<in> set (map (\<lambda>note. if releasable col note
                   then note\<lparr>tail := map_option (\<lambda>t. t\<lparr>dead := True\<rparr>) (tail note)\<rparr>
                   else note) (currentNotes s))"
    by (simp add: ButtonRelease_apply_def Let_def)
  then have "\<exists>m \<in> set (currentNotes s). note_id m = note_id m' \<and> tail m \<noteq> None"
    using assms(2) by (rule map_tail_origin) (simp_all split: if_splits)
  then show ?thesis by (rule disjI1)
next
  case TickGame
  with assms have "m' \<in> set (currentNotes (tick s))"
    by (simp add: TickGame_apply_def Let_def)
  from tick_tail_origin [OF this assms(2)] show ?thesis by (rule disjI1)
next
  case GameEnd
  with assms have "m' \<in> set (currentNotes (tick (s\<lparr>allNotesProcessed := True\<rparr>)))"
    by (simp add: GameEnd_apply_def)
  from tick_tail_origin [OF this assms(2)]
  have "\<exists>m \<in> set (currentNotes s). note_id m = note_id m' \<and> tail m \<noteq> None" by simp
  then show ?thesis by (rule disjI1)
next
  case (NextNote b)
  with assms have "m' \<in> set (currentNotes (tick s))
      \<or> m' \<in> set (currentNotes (tick (s\<lparr>currentNotes := notesWithTail R s b\<rparr>)))"
    by (simp add: NextNote_currentNotes)
  then show ?thesis
  proof
    assume "m' \<in> set (currentNotes (tick s))"
    from tick_tail_origin [OF this assms(2)] show ?thesis by (rule disjI1)
  next
    assume "m' \<in> set (currentNotes (tick (s\<lparr>currentNotes := notesWithTail R s b\<rparr>)))"
    from spawned_after_tick [OF this] obtain i where i: "i < length b"
        and id: "note_id m' = note_id (b ! i)"
        and tl: "tail m' \<noteq> None \<longleftrightarrow>
                   visual (b ! i) \<and> dsub (end_t (b ! i)) (start (b ! i)) > 1000"
      by blast
    from i have "b ! i \<in> set b" by simp
    moreover from tl assms(2)
    have "visual (b ! i) \<and> dsub (end_t (b ! i)) (start (b ! i)) > 1000" by simp
    ultimately have "\<exists>m \<in> set b. note_id m = note_id m' \<and> visual m
                                 \<and> dsub (end_t m) (start m) > 1000"
      using id by auto
    with NextNote show ?thesis by simp
  qed
next
  case RandomiseNotes
  from assms(1) obtain i where i: "i < length (currentNotes (applyAction R s a))"
      and mi: "m' = currentNotes (applyAction R s a) ! i"
    by (auto simp: in_set_conv_nth)
  from i RandomiseNotes have i': "i < length (currentNotes s)"
    by (simp add: RandomiseNotes_apply_def)
  then have "note_id m' = note_id (currentNotes s ! i)" and "tail m' = tail (currentNotes s ! i)"
    using RandomiseNotes mi by (simp_all add: RandomiseNotes_apply_def nth_enumerate_eq)
  moreover from i' have "currentNotes s ! i \<in> set (currentNotes s)" by simp
  ultimately have "\<exists>m \<in> set (currentNotes s). note_id m = note_id m' \<and> tail m \<noteq> None"
    using assms(2) by auto
  then show ?thesis by (rule disjI1)
qed

text \<open>
  C6, as stated: a spawned note ends up with a tail exactly when \<open>end - start\<close> exceeds
  1000. A note that is not visual, of duration 1500, ends up without one.
\<close>

theorem NextNote_tails_counterexample:
  "end_t ((exampleNote 1 False 0 1)\<lparr>end_t := 1500\<rparr>)
     - start ((exampleNote 1 False 0 1)\<lparr>end_t := 1500\<rparr>) > 1000
   \<and> map tail (currentNotes (NextNote_apply exampleRNG
         [(exampleNote 1 False 0 1)\<lparr>end_t := 1500\<rparr>] (initialState exampleRNG))) = [None]"
  by (simp add: NextNote_apply_def notesWithTail_def tick_currentNotes exampleNote_def
        initialState_def updatePositionForGame_def updateNotePosition_def
        TICK_UNIT_INCREMENT_def BOTTOM_ROW_def Let_def)

text \<open>
  C6, amended. \<open>NextNote\<close> gives a note of the batch a tail exactly when the note is
  visual and its duration, the double \<open>end - start\<close>, exceeds 1000. The tail has
  \<open>tailEnd = position\<close> and \<open>tailStart = position - duration / TICK_RATE_MS\<close> in the
  arithmetic of doubles; for a note spawned at position 0, as the chart gives them,
  \<open>tailEnd - tailStart\<close> is the double \<open>duration / TICK_RATE_MS\<close>. Every other note of
  the batch gets no tail and \<open>special = (~~(scale(hash) * 100) \<ge> 90)\<close>, one value for the
  whole batch; for a sample \<open>u\<close> of the generator that is a double with \<open>0 \<le> u < 1\<close>
  this is \<open>u \<ge> 0.9\<close>, the top tenth of the range. The result is the physics step of
  the old notes followed by the physics step of the batch; the notes of the batch that are
  still live after it have a tail in the same cases, and of the same length when spawned at
  position 0 with a duration of at most \<open>2 ^ 53\<close>. The seed advances once. Under every
  action, a live note with a tail has the id of a note that had a tail before, or of a visual
  note of the spawned batch with a duration over 1000: a tail is never given later.
\<close>

theorem NextNote_tails:
  "length (notesWithTail R s batch) = length batch
   \<and> (\<forall>i < length batch.
         (tail (notesWithTail R s batch ! i) \<noteq> None \<longleftrightarrow>
            visual (batch ! i) \<and> dsub (end_t (batch ! i)) (start (batch ! i)) > 1000)
         \<and> (\<forall>t. tail (notesWithTail R s batch ! i) = Some t \<longrightarrow>
               tailEnd t = position (batch ! i)
               \<and> tailStart t =
                   dsub (position (batch ! i))
                        (ddiv (dsub (end_t (batch ! i)) (start (batch ! i))) TICK_RATE_MS)
               \<and> (position (batch ! i) = 0 \<longrightarrow>
                    tailEnd t - tailStart t
                      = ddiv (dsub (end_t (batch ! i)) (start (batch ! i))) TICK_RATE_MS))
         \<and> (tail (notesWithTail R s batch ! i) = None \<longrightarrow>
               (special (notesWithTail R s batch ! i) \<longleftrightarrow>
                  toInt32 (dmul (RNG_scale R (hash s)) 100) \<ge> BONUS_NOTES_PERCENTAGE)
               \<and> (0 \<le> RNG_scale R (hash s) \<and> RNG_scale R (hash s) < 1
                    \<and> round53 (RNG_scale R (hash s)) = RNG_scale R (hash s) \<longrightarrow>
                    (special (notesWithTail R s batch ! i) \<longleftrightarrow>
                       9 / 10 \<le> RNG_scale R (hash s)))))
   \<and> currentNotes (NextNote_apply R batch s) =
       currentNotes (tick s)
       @ currentNotes (tick (s\<lparr>currentNotes := notesWithTail R s batch\<rparr>))
   \<and> (\<forall>m' \<in> set (currentNotes (tick (s\<lparr>currentNotes := notesWithTail R s batch\<rparr>))).
         \<exists>i < length batch.
           note_id m' = note_id (batch ! i)
           \<and> (tail m' \<noteq> None \<longleftrightarrow>
                visual (batch ! i) \<and> dsub (end_t (batch ! i)) (start (batch ! i)) > 1000)
           \<and> (position (batch ! i) = 0 \<and> dsub (end_t (batch ! i)) (start (batch ! i)) \<le> 2 ^ 53
                \<longrightarrow> (\<forall>t. tail m' = Some t \<longrightarrow>
                       tailEnd t - tailStart t
                         = ddiv (dsub (end_t (batch ! i)) (start (batch ! i))) TICK_RATE_MS)))
   \<and> hash (NextNote_apply R batch s) = RNG_hash R (hash s)
   \<and> (\<forall>a. \<forall>m' \<in> set (currentNotes (applyAction R s a)). tail m' \<noteq> None \<longrightarrow>
         (\<exists>m \<in> set (currentNotes s). note_id m = note_id m' \<and> tail m \<noteq> None)
         \<or> (\<exists>b. a = NextNote b
                \<and> (\<exists>m \<in> set b. note_id m = note_id m' \<and> visual m
                                 \<and> dsub (end_t m) (start m) > 1000)))"
proof -
  have 1: "length (notesWithTail R s batch) = length batch"
    by (simp add: notesWithTail_def)
  have 2: "hash (NextNote_apply R batch s) = RNG_hash R (hash s)"
    by (simp add: NextNote_apply_def tick_fields)
  have 3: "\<forall>i < length batch.
         (tail (notesWithTail R s batch ! i) \<noteq> None \<longleftrightarrow>
            visual (batch ! i) \<and> dsub (end_t (batch ! i)) (start (batch ! i)) > 1000)
         \<and> (\<forall>t. tail (notesWithTail R s batch ! i) = Some t \<longrightarrow>
               tailEnd t = position (batch ! i)
               \<and> tailStart t =
                   dsub (position (batch ! i))
                        (ddiv (dsub (end_t (batch ! i)) (start (batch ! i))) TICK_RATE_MS)
               \<and> (position (batch ! i) = 0 \<longrightarrow>
                    tailEnd t - tailStart t
                      = ddiv (dsub (end_t (batch ! i)) (start (batch ! i))) TICK_RATE_MS))
         \<and> (tail (notesWithTail R s batch ! i) = None \<longrightarrow>
               (special (notesWithTail R s batch ! i) \<longleftrightarrow>
                  toInt32 (dmul (RNG_scale R (hash s)) 100) \<ge> BONUS_NOTES_PERCENTAGE)
               \<and> (0 \<le> RNG_scale R (hash s) \<and> RNG_scale R (hash s) < 1
                    \<and> round53 (RNG_scale R (hash s)) = RNG_scale R (hash s) \<longrightarrow>
                    (special (notesWithTail R s batch ! i) \<longleftrightarrow>
                       9 / 10 \<le> RNG_scale R (hash s))))"
  proof (intro allI impI)
    fix i assume i: "i < length batch"
    note w = notesWithTail_nth [OF i, of R s]
    have a: "tailEnd t - tailStart t
               = ddiv (dsub (end_t (batch ! i)) (start (batch ! i))) TICK_RATE_MS"
      if "tail (notesWithTail R s batch ! i) = Some t" "position (batch ! i) = 0" for t
      using w that by (intro tail_length_at_top) simp_all
    have b: "special (notesWithTail R s batch ! i) \<longleftrightarrow> 9 / 10 \<le> RNG_scale R (hash s)"
      if "tail (notesWithTail R s batch ! i) = None" "0 \<le> RNG_scale R (hash s)"
         "RNG_scale R (hash s) < 1" "round53 (RNG_scale R (hash s)) = RNG_scale R (hash s)"
      using w that special_threshold [of "RNG_scale R (hash s)"] by simp
    from w a b
    show "(tail (notesWithTail R s batch ! i) \<noteq> None \<longleftrightarrow>
            visual (batch ! i) \<and> dsub (end_t (batch ! i)) (start (batch ! i)) > 1000)
         \<and> (\<forall>t. tail (notesWithTail R s batch ! i) = Some t \<longrightarrow>
               tailEnd t = position (batch ! i)
               \<and> tailStart t =
                   dsub (position (batch ! i))
                        (ddiv (dsub (end_t (batch ! i)) (start (batch ! i))) TICK_RATE_MS)
               \<and> (position (batch ! i) = 0 \<longrightarrow>
                    tailEnd t - tailStart t
                      = ddiv (dsub (end_t (batch ! i)) (start (batch ! i))) TICK_RATE_MS))
         \<and> (tail (notesWithTail R s batch ! i) = None \<longrightarrow>
               (special (notesWithTail R s batch ! i) \<longleftrightarrow>
                  toInt32 (dmul (RNG_scale R (hash s)) 100) \<ge> BONUS_NOTES_PERCENTAGE)
               \<and> (0 \<le> RNG_scale R (hash s) \<and> RNG_scale R (hash s) < 1
                    \<and> round53 (RNG_scale R (hash s)) = RNG_scale R (hash s) \<longrightarrow>
                    (special (notesWithTail R s batch ! i) \<longleftrightarrow>
                       9 / 10 \<le> RNG_scale R (hash s))))"
      by blast
  qed
  from 1 2 3 NextNote_currentNotes [of R batch s]
    spawned_after_tick [where batch = batch and R = R and s = s]
    action_tail_origin [where R = R and s = s]
  show ?thesis by blast
qed

theorem NextNote_tails_witness:
  "tail (notesWithTail exampleRNG (initialState exampleRNG\<lparr>hash := 2040109465\<rparr>)
           [(exampleNote 1 True 0 1)\<lparr>end_t := 1500\<rparr>, exampleNote 2 True 0 2] ! 0)
     = Some \<lparr>tailStart = - (3769754152374857 / 17592186044416), tailEnd = 0, dead = False\<rparr>
   \<and> tail (notesWithTail exampleRNG (initialState exampleRNG\<lparr>hash := 2040109465\<rparr>)
           [(exampleNote 1 True 0 1)\<lparr>end_t := 1500\<rparr>, exampleNote 2 True 0 2] ! 1) = None
   \<and> special (notesWithTail exampleRNG (initialState exampleRNG\<lparr>hash := 2040109465\<rparr>)
           [(exampleNote 1 True 0 1)\<lparr>end_t := 1500\<rparr>, exampleNote 2 True 0 2] ! 1)
   \<and> \<not> special (notesWithTail exampleRNG (initialState exampleRNG\<lparr>hash := 1\<rparr>)
           [(exampleNote 1 True 0 1)\<lparr>end_t := 1500\<rparr>, exampleNote 2 True 0 2] ! 1)
   \<and> map tail (currentNotes (NextNote_apply exampleRNG
           [(exampleNote 1 True 0 1)\<lparr>end_t := 1500\<rparr>, exampleNote 2 True 0 2]
           (initialState exampleRNG\<lparr>hash := 1\<rparr>)))
       = [Some \<lparr>tailStart = - (3752161966330441 / 17592186044416), tailEnd = 1,
                 dead = False\<rparr>, None]
   \<and> (\<exists>m \<in> set [sustainedNote 7 0 False]. note_id m = 7 \<and> tail m \<noteq> None)"
proof -
  let ?b = "[(exampleNote 1 True 0 1)\<lparr>end_t := 1500\<rparr>, exampleNote 2 True 0 2]"
  let ?s = "initialState exampleRNG\<lparr>hash := 2040109465\<rparr>"
  let ?s1 = "initialState exampleRNG\<lparr>hash := 1\<rparr>"
  let ?u = "initialState exampleRNG\<lparr>currentNotes := [sustainedNote 7 0 False]\<rparr>"
  have len: "ddiv 1500 7 = 3769754152374857 / 17592186044416" by code_simp
  have hi: "0 \<le> ddiv 2040109465 2147483647 \<and> ddiv 2040109465 2147483647 < 1
            \<and> 9 / 10 \<le> ddiv 2040109465 2147483647" by code_simp
  have lo: "0 \<le> ddiv 1 2147483647 \<and> ddiv 1 2147483647 < 1
            \<and> \<not> 9 / 10 \<le> ddiv 1 2147483647" by code_simp
  have after: "map tail (currentNotes (NextNote_apply exampleRNG ?b ?s1))
       = [Some \<lparr>tailStart = - (3752161966330441 / 17592186044416), tailEnd = 1,
                 dead = False\<rparr>, None]"
    by code_simp
  have d0: "dsub (end_t (?b ! 0)) (start (?b ! 0)) = 1500"
    using round53_of_int [of 1500] by (simp add: exampleNote_def dsub_def)
  have d1: "dsub (end_t (?b ! 1)) (start (?b ! 1)) = 0"
    by (simp add: exampleNote_def dsub_def)
  have sc: "RNG_scale exampleRNG (hash ?s) = ddiv 2040109465 2147483647"
           "RNG_scale exampleRNG (hash ?s1) = ddiv 1 2147483647"
    by (simp_all add: exampleRNG_def)
  have fp: "round53 (ddiv x y) = ddiv x y" for x y by (simp add: ddiv_def)
  have all: "\<forall>i < length ?b.
         (tail (notesWithTail exampleRNG ?s ?b ! i) \<noteq> None \<longleftrightarrow>
            visual (?b ! i) \<and> dsub (end_t (?b ! i)) (start (?b ! i)) > 1000)
         \<and> (\<forall>t. tail (notesWithTail exampleRNG ?s ?b ! i) = Some t \<longrightarrow>
               tailEnd t = position (?b ! i)
               \<and> tailStart t =
                   dsub (position (?b ! i))
                        (ddiv (dsub (end_t (?b ! i)) (start (?b ! i))) TICK_RATE_MS)
               \<and> (position (?b ! i) = 0 \<longrightarrow>
                    tailEnd t - tailStart t
                      = ddiv (dsub (end_t (?b ! i)) (start (?b ! i))) TICK_RATE_MS))
         \<and> (tail (notesWithTail exampleRNG ?s ?b ! i) = None \<longrightarrow>
               (0 \<le> RNG_scale exampleRNG (hash ?s) \<and> RNG_scale exampleRNG (hash ?s) < 1
                    \<and> round53 (RNG_scale exampleRNG (hash ?s)) = RNG_scale exampleRNG (hash ?s)
                  \<longrightarrow> (special (notesWithTail exampleRNG ?s ?b ! i) \<longleftrightarrow>
                       9 / 10 \<le> RNG_scale exampleRNG (hash ?s))))"
    using NextNote_tails [of exampleRNG ?s ?b] by blast
  have i0: "0 < length ?b" and i1: "1 < length ?b" by simp_all
  from all [THEN spec, of 0] i0 have
    "(tail (notesWithTail exampleRNG ?s ?b ! 0) \<noteq> None \<longleftrightarrow>
            visual (?b ! 0) \<and> dsub (end_t (?b ! 0)) (start (?b ! 0)) > 1000)
         \<and> (\<forall>t. tail (notesWithTail exampleRNG ?s ?b ! 0) = Some t \<longrightarrow>
               tailEnd t = position (?b ! 0)
               \<and> (position (?b ! 0) = 0 \<longrightarrow>
                    tailEnd t - tailStart t
                      = ddiv (dsub (end_t (?b ! 0)) (start (?b ! 0))) TICK_RATE_MS))"
    by blast
  then obtain t where t: "tail (notesWithTail exampleRNG ?s ?b ! 0) = Some t"
    and te: "tailEnd t = 0" and tl: "tailEnd t - tailStart t = ddiv 1500 7"
    unfolding d0 by (auto simp: exampleNote_def TICK_RATE_MS_def)
  have "dead t = False" using t by (auto simp: notesWithTail_def Let_def split: if_splits)
  with te tl len have "t = \<lparr>tailStart = - (3769754152374857 / 17592186044416), tailEnd = 0,
                             dead = False\<rparr>"
    by simp
  with t have t0: "tail (notesWithTail exampleRNG ?s ?b ! 0)
     = Some \<lparr>tailStart = - (3769754152374857 / 17592186044416), tailEnd = 0, dead = False\<rparr>"
    by simp
  from all [THEN spec, of 1] i1 have
    "(tail (notesWithTail exampleRNG ?s ?b ! 1) \<noteq> None \<longleftrightarrow>
            visual (?b ! 1) \<and> dsub (end_t (?b ! 1)) (start (?b ! 1)) > 1000)
         \<and> (tail (notesWithTail exampleRNG ?s ?b ! 1) = None \<longrightarrow>
               (0 \<le> RNG_scale exampleRNG (hash ?s) \<and> RNG_scale exampleRNG (hash ?s) < 1
                    \<and> round53 (RNG_scale exampleRNG (hash ?s)) = RNG_scale exampleRNG (hash ?s)
                  \<longrightarrow> (special (notesWithTail exampleRNG ?s ?b ! 1) \<longleftrightarrow>
                       9 / 10 \<le> RNG_scale exampleRNG (hash ?s))))"
    by blast
  then have t1: "tail (notesWithTail exampleRNG ?s ?b ! 1) = None
      \<and> special (notesWithTail exampleRNG ?s ?b ! 1)"
    unfolding d1 sc using hi fp by simp
  have "\<forall>i < length ?b.
         (tail (notesWithTail exampleRNG ?s1 ?b ! i) \<noteq> None \<longleftrightarrow>
            visual (?b ! i) \<and> dsub (end_t (?b ! i)) (start (?b ! i)) > 1000)
         \<and> (tail (notesWithTail exampleRNG ?s1 ?b ! i) = None \<longrightarrow>
               (0 \<le> RNG_scale exampleRNG (hash ?s1) \<and> RNG_scale exampleRNG (hash ?s1) < 1
                    \<and> round53 (RNG_scale exampleRNG (hash ?s1)) = RNG_scale exampleRNG (hash ?s1)
                  \<longrightarrow> (special (notesWithTail exampleRNG ?s1 ?b ! i) \<longleftrightarrow>
                       9 / 10 \<le> RNG_scale exampleRNG (hash ?s1))))"
    using NextNote_tails [of exampleRNG ?s1 ?b] by blast
  from this [THEN spec, of 1] i1 have
    "(tail (notesWithTail exampleRNG ?s1 ?b ! 1) \<noteq> None \<longleftrightarrow>
            visual (?b ! 1) \<and> dsub (end_t (?b ! 1)) (start (?b ! 1)) > 1000)
         \<and> (tail (notesWithTail exampleRNG ?s1 ?b ! 1) = None \<longrightarrow>
               (0 \<le> RNG_scale exampleRNG (hash ?s1) \<and> RNG_scale exampleRNG (hash ?s1) < 1
                    \<and> round53 (RNG_scale exampleRNG (hash ?s1)) = RNG_scale exampleRNG (hash ?s1)
                  \<longrightarrow> (special (notesWithTail exampleRNG ?s1 ?b ! 1) \<longleftrightarrow>
                       9 / 10 \<le> RNG_scale exampleRNG (hash ?s1))))"
    by blast
  then have t2: "\<not> special (notesWithTail exampleRNG ?s1 ?b ! 1)"
    unfolding d1 sc using lo fp by simp
  have "\<forall>a. \<forall>m' \<in> set (currentNotes (applyAction exampleRNG ?u a)). tail m' \<noteq> None \<longrightarrow>
         (\<exists>m \<in> set (currentNotes ?u). note_id m = note_id m' \<and> tail m \<noteq> None)
         \<or> (\<exists>b. a = NextNote b
                \<and> (\<exists>m \<in> set b. note_id m = note_id m' \<and> visual m
                                 \<and> dsub (end_t m) (start m) > 1000))"
    using NextNote_tails [of exampleRNG ?u "[]"] by blast
  then have "\<forall>m' \<in> set (currentNotes (applyAction exampleRNG ?u (ButtonRelease 0))).
         tail m' \<noteq> None \<longrightarrow>
         (\<exists>m \<in> set (currentNotes ?u). note_id m = note_id m' \<and> tail m \<noteq> None)
         \<or> (\<exists>b. ButtonRelease 0 = NextNote b
                \<and> (\<exists>m \<in> set b. note_id m = note_id m' \<and> visual m
                                 \<and> dsub (end_t m) (start m) > 1000))"
    by blast
  then have t3: "\<exists>m \<in> set [sustainedNote 7 0 False]. note_id m = 7 \<and> tail m \<noteq> None"
    by (simp add: ButtonRelease_apply_def releasable_def sustainedNote_def Let_def)
  from t0 t1 t2 after t3 show ?thesis by blast
qed

section \<open>The end of the game\<close>

text \<open>
  C1, as stated: in every state that the fold of any actions reaches from the initial state,
  \<open>gameEnd\<close> implies that nothing is live, playable or reported. After \<open>GameEnd\<close> the
  flag is set, and a \<open>ButtonClick\<close> then adds a wrong-press note to \<open>playableNotes\<close>.
\<close>

theorem gameEnd_counterexample:
  "gameEnd (scanActions exampleRNG (initialState exampleRNG) [GameEnd, ButtonClick 0])
   \<and> playableNotes (scanActions exampleRNG (initialState exampleRNG) [GameEnd, ButtonClick 0])
       \<noteq> []"
  by (simp add: scanActions_def GameEnd_apply_def ButtonClick_apply_def tick_def
        initAccNoteSound_def initialState_def Let_def)

lemma map_filter_Nil_conv:
  "List.map_filter f xs = [] \<longleftrightarrow> (\<forall>x \<in> set xs. f x = None)"
  by (induction xs) (auto split: option.splits)

lemma spawned_survives:
  assumes "position n = 0" and "m \<in> set (notesWithTail R s [n])"
  shows "fst (updatePositionForGame m) \<noteq> None"
proof (cases "visual n \<and> dsub (end_t n) (start n) > 1000")
  case True
  define L where "L = ddiv (dsub (end_t n) (start n)) TICK_RATE_MS"
  from True have "0 \<le> dsub (end_t n) (start n) / TICK_RATE_MS"
    by (simp add: TICK_RATE_MS_def)
  then have "0 \<le> L" unfolding L_def ddiv_def by (rule round53_nonneg)
  then have "0 - L + 1 \<le> 1" by simp
  moreover have "dsub 0 L \<le> 0" unfolding dsub_def using \<open>0 \<le> L\<close> by (intro round53_nonpos) simp
  ultimately have "dsub 0 L + 1 \<le> 1" by simp
  then have "round53 (dsub 0 L + 1) \<le> round53 1" by (rule round53_mono)
  moreover have "round53 1 = 1" using round53_of_int [of 1] by simp
  ultimately have "dadd (dsub 0 L) 1 < 350" by (simp add: dadd_def)
  with assms True show ?thesis
    by (simp add: notesWithTail_def updatePositionForGame_def updateNotePosition_def
          updateTail_def TICK_UNIT_INCREMENT_def BOTTOM_ROW_def Let_def L_def)
next
  case False
  with assms show ?thesis
    by (auto simp: notesWithTail_def updatePositionForGame_def updateNotePosition_def
          TICK_UNIT_INCREMENT_def BOTTOM_ROW_def Let_def)
qed

lemma batch_survives:
  assumes "list_all (\<lambda>n. position n = 0) batch" and "batch \<noteq> []"
  shows "List.map_filter (\<lambda>n. fst (updatePositionForGame n)) (notesWithTail R s batch) \<noteq> []"
proof -
  from assms(2) obtain n ns where b: "batch = n # ns" by (cases batch) auto
  with assms(1) have "position n = 0" by simp
  moreover have "hd (notesWithTail R s batch) \<in> set (notesWithTail R s [n])"
    using b by (simp add: notesWithTail_def)
  ultimately have "fst (updatePositionForGame (hd (notesWithTail R s batch))) \<noteq> None"
    by (rule spawned_survives)
  moreover have "hd (notesWithTail R s batch) \<in> set (notesWithTail R s batch)"
    using b by (simp add: notesWithTail_def)
  ultimately show ?thesis
    by (auto simp: map_filter_Nil_conv)
qed

lemma tick_keeps_report:
  "currentNotes (tick s) \<noteq> [] \<longrightarrow> RIPNotes (tick s) \<noteq> []"
  by (auto simp: tick_currentNotes tick_fields)

lemma tick_settled:
  assumes "currentNotes s \<noteq> [] \<longrightarrow> RIPNotes s \<noteq> []" and "gameEnd (tick s)"
  shows "allNotesProcessed (tick s) \<and> currentNotes (tick s) = []
         \<and> playableNotes (tick s) = [] \<and> RIPNotes (tick s) = []"
  using assms by (auto simp: tick_gameEnd tick_fields)

lemma step_invariant:
  assumes inv: "currentNotes s \<noteq> [] \<longrightarrow> RIPNotes s \<noteq> []"
    and run: "\<not> gameEnd s" and top: "spawnsAtTop a"
  shows "(currentNotes (applyAction R s a) \<noteq> [] \<longrightarrow> RIPNotes (applyAction R s a) \<noteq> [])
         \<and> (gameEnd (applyAction R s a) \<longrightarrow>
              allNotesProcessed (applyAction R s a) \<and> currentNotes (applyAction R s a) = []
              \<and> playableNotes (applyAction R s a) = [] \<and> RIPNotes (applyAction R s a) = [])"
proof (cases a)
  case (ButtonClick col)
  with run show ?thesis by (simp add: ButtonClick_apply_def Let_def)
next
  case (ButtonRelease col)
  with run show ?thesis by (simp add: ButtonRelease_apply_def Let_def)
next
  case TickGame
  have "gameEnd (TickGame_apply s) = gameEnd (tick s)"
       "allNotesProcessed (TickGame_apply s) = allNotesProcessed (tick s)"
       "currentNotes (TickGame_apply s) = currentNotes (tick s)"
       "playableNotes (TickGame_apply s) = playableNotes (tick s)"
       "RIPNotes (TickGame_apply s) = RIPNotes (tick s)"
    by (simp_all add: TickGame_apply_def Let_def)
  with TickGame tick_keeps_report [of s] tick_settled [OF inv] show ?thesis by simp
next
  case GameEnd
  let ?s = "s\<lparr>allNotesProcessed := True\<rparr>"
  have "currentNotes ?s \<noteq> [] \<longrightarrow> RIPNotes ?s \<noteq> []" using inv by simp
  from tick_settled [OF this] tick_keeps_report [of ?s] GameEnd show ?thesis
    by (simp add: GameEnd_apply_def)
next
  case (NextNote batch)
  let ?s = "s\<lparr>hash := RNG_hash R (hash s),
               currentNotes := currentNotes s @ notesWithTail R s batch\<rparr>"
  from NextNote top have pos: "list_all (\<lambda>n. position n = 0) batch" by simp
  have "RIPNotes (tick ?s) = []" if "gameEnd (tick ?s)"
  proof -
    from that have e: "currentNotes (tick ?s) = []" and r: "RIPNotes s = []"
      by (simp_all add: tick_gameEnd)
    from r inv have c: "currentNotes s = []" by blast
    have "batch = []"
    proof (rule ccontr)
      assume "batch \<noteq> []"
      from batch_survives [OF pos this, of R s] e c show False
        by (simp add: tick_currentNotes)
    qed
    with c show ?thesis by (simp add: tick_fields notesWithTail_def)
  qed
  with NextNote tick_keeps_report [of ?s] show ?thesis
    by (auto simp: NextNote_apply_def tick_gameEnd tick_fields)
next
  case RandomiseNotes
  with run inv show ?thesis
    by (cases "currentNotes s") (simp_all add: RandomiseNotes_apply_def)
qed

lemma runGame_invariant:
  assumes "currentNotes s \<noteq> [] \<longrightarrow> RIPNotes s \<noteq> []"
    and "gameEnd s \<longrightarrow> allNotesProcessed s \<and> currentNotes s = []
                        \<and> playableNotes s = [] \<and> RIPNotes s = []"
    and "list_all spawnsAtTop acts"
  shows "gameEnd (runGame R s acts) \<longrightarrow>
           allNotesProcessed (runGame R s acts) \<and> currentNotes (runGame R s acts) = []
           \<and> playableNotes (runGame R s acts) = [] \<and> RIPNotes (runGame R s acts) = []"
  using assms
proof (induction acts arbitrary: s)
  case Nil
  then show ?case by simp
next
  case (Cons a acts)
  show ?case
  proof (cases "gameEnd s")
    case True
    with Cons.prems show ?thesis by simp
  next
    case False
    from Cons.prems(3) have a: "spawnsAtTop a" and rest: "list_all spawnsAtTop acts"
      by simp_all
    note st = step_invariant [OF Cons.prems(1) False a, of R]
    from Cons.IH [of "applyAction R s a"] st rest False show ?thesis by simp
  qed
qed

lemma TickGame_fields:
  "gameEnd (TickGame_apply s) = gameEnd (tick s)"
  "allNotesProcessed (TickGame_apply s) = allNotesProcessed s"
  "currentNotes (TickGame_apply s) = currentNotes (tick s)"
  "playableNotes (TickGame_apply s) = playableNotes (tick s)"
  "RIPNotes (TickGame_apply s) = currentNotes s"
  by (simp_all add: TickGame_apply_def Let_def tick_fields)

lemma ticks_fall:
  assumes "\<not> gameEnd s" and "\<not> allNotesProcessed s" and "currentNotes s = [n]"
    and "tail n = None" and "position n + of_nat k < BOTTOM_ROW"
  shows "\<exists>s'. runGame R s (replicate k TickGame @ rest) = runGame R s' rest
              \<and> \<not> gameEnd s' \<and> \<not> allNotesProcessed s'
              \<and> currentNotes s' = [n\<lparr>position := position n + of_nat k\<rparr>]"
  using assms
proof (induction k arbitrary: s n)
  case 0
  then show ?case by auto
next
  case (Suc k)
  let ?s = "TickGame_apply s" and ?n = "n\<lparr>position := position n + 1\<rparr>"
  from Suc.prems(5) have below: "position n + 1 < BOTTOM_ROW" by simp
  from Suc.prems(4) below
  have u: "updatePositionForGame n = (Some ?n, None)" by (rule untailed_below)
  have c: "currentNotes ?s = [?n]"
    using Suc.prems(3) u by (simp add: TickGame_fields tick_currentNotes)
  have g: "\<not> gameEnd ?s" using Suc.prems(2) by (simp add: TickGame_fields tick_gameEnd)
  have a: "\<not> allNotesProcessed ?s" using Suc.prems(2) by (simp add: TickGame_fields)
  have t: "tail ?n = None" using Suc.prems(4) by simp
  have p: "position ?n + of_nat k < BOTTOM_ROW" using Suc.prems(5) by (simp add: algebra_simps)
  from Suc.IH [OF g a c t p] obtain s' where
    "runGame R ?s (replicate k TickGame @ rest) = runGame R s' rest"
    "\<not> gameEnd s'" "\<not> allNotesProcessed s'"
    "currentNotes s' = [?n\<lparr>position := position ?n + of_nat k\<rparr>]"
    by blast
  moreover have "runGame R s (replicate (Suc k) TickGame @ rest)
                 = runGame R ?s (replicate k TickGame @ rest)"
    using Suc.prems(1) by simp
  moreover have "?n\<lparr>position := position ?n + of_nat k\<rparr>
                 = n\<lparr>position := position n + of_nat (Suc k)\<rparr>"
    by (simp add: algebra_simps)
  ultimately show ?case by metis
qed

lemma example_run_ends:
  "gameEnd (runGame exampleRNG (initialState exampleRNG)
      (NextNote [exampleNote 1 True 0 0] # replicate 350 TickGame @ [GameEnd]))"
proof -
  let ?s0 = "NextNote_apply exampleRNG [exampleNote 1 True 0 0] (initialState exampleRNG)"
  have d: "dsub 0 0 = 0" by (simp add: dsub_def)
  obtain sp where c0: "currentNotes ?s0 = [(exampleNote 1 True 1 0)\<lparr>special := sp\<rparr>]"
    by (simp add: NextNote_apply_def notesWithTail_def tick_currentNotes exampleNote_def d
          initialState_def updatePositionForGame_def updateNotePosition_def
          TICK_UNIT_INCREMENT_def BOTTOM_ROW_def Let_def)
  let ?n = "(exampleNote 1 True 1 0)\<lparr>special := sp\<rparr>"
  have g0: "\<not> gameEnd ?s0" and a0: "\<not> allNotesProcessed ?s0"
    by (simp_all add: NextNote_apply_def tick_gameEnd tick_fields initialState_def)
  have t0: "tail ?n = None" by (simp add: exampleNote_def)
  have p0: "position ?n + of_nat 348 < BOTTOM_ROW"
    by (simp add: exampleNote_def BOTTOM_ROW_def)
  from ticks_fall [OF g0 a0 c0 t0 p0, of exampleRNG "[TickGame, TickGame, GameEnd]"]
  obtain s' where r: "runGame exampleRNG ?s0 (replicate 348 TickGame
                        @ [TickGame, TickGame, GameEnd])
                      = runGame exampleRNG s' [TickGame, TickGame, GameEnd]"
    and g: "\<not> gameEnd s'" and a: "\<not> allNotesProcessed s'"
    and c: "currentNotes s' = [?n\<lparr>position := position ?n + of_nat 348\<rparr>]"
    by blast
  let ?m = "?n\<lparr>position := position ?n + of_nat 348\<rparr>"
  have um: "updatePositionForGame ?m = (None, None)"
    by (rule untailed_boundary_missed) (simp_all add: exampleNote_def BOTTOM_ROW_def)
  let ?s1 = "TickGame_apply s'"
  have c1: "currentNotes ?s1 = []" and p1: "playableNotes ?s1 = []"
    using c um by (simp_all add: TickGame_fields tick_currentNotes tick_playableNotes)
  have g1: "\<not> gameEnd ?s1" and a1: "\<not> allNotesProcessed ?s1"
    using a by (simp_all add: TickGame_fields tick_gameEnd)
  let ?s2 = "TickGame_apply ?s1"
  have c2: "currentNotes ?s2 = []" and r2: "RIPNotes ?s2 = []"
    using c1 by (simp_all add: TickGame_fields tick_currentNotes)
  have g2: "\<not> gameEnd ?s2" using a1 by (simp add: TickGame_fields tick_gameEnd)
  have "gameEnd (GameEnd_apply ?s2)"
    using c2 r2 by (simp add: GameEnd_apply_def tick_gameEnd tick_currentNotes
        tick_playableNotes)
  then have e: "gameEnd (runGame exampleRNG s' [TickGame, TickGame, GameEnd])"
    using g g1 g2 by simp
  have "replicate 350 TickGame @ [GameEnd]
        = replicate 348 TickGame @ [TickGame, TickGame, GameEnd]"
    by (simp add: replicate_add [of 348 2, simplified] numeral_eq_Suc)
  then have "runGame exampleRNG (initialState exampleRNG)
        (NextNote [exampleNote 1 True 0 0] # replicate 350 TickGame @ [GameEnd])
      = runGame exampleRNG ?s0 (replicate 348 TickGame @ [TickGame, TickGame, GameEnd])"
    by (simp add: initialState_def)
  with r e show ?thesis by simp
qed

text \<open>
  C1, amended. In every state that the driver reaches from the initial state, applying no
  action once \<open>gameEnd\<close> is true and spawning every batch at position 0: if \<open>gameEnd\<close>
  is true then \<open>allNotesProcessed\<close> is true and \<open>currentNotes\<close>, \<open>playableNotes\<close> and
  \<open>RIPNotes\<close> are empty.
\<close>

theorem gameEnd_settled:
  assumes "list_all spawnsAtTop acts" and "gameEnd (runGame R (initialState R) acts)"
  shows "allNotesProcessed (runGame R (initialState R) acts)
         \<and> currentNotes (runGame R (initialState R) acts) = []
         \<and> playableNotes (runGame R (initialState R) acts) = []
         \<and> RIPNotes (runGame R (initialState R) acts) = []"
proof -
  have "currentNotes (initialState R) \<noteq> [] \<longrightarrow> RIPNotes (initialState R) \<noteq> []"
    and "gameEnd (initialState R) \<longrightarrow>
           allNotesProcessed (initialState R) \<and> currentNotes (initialState R) = []
           \<and> playableNotes (initialState R) = [] \<and> RIPNotes (initialState R) = []"
    by (simp_all add: initialState_def)
  from runGame_invariant [OF this assms(1)] assms(2) show ?thesis by blast
qed

theorem gameEnd_settled_witness:
  "list_all spawnsAtTop
     (NextNote [exampleNote 1 True 0 0] # replicate 350 TickGame @ [GameEnd])
   \<and> gameEnd (runGame exampleRNG (initialState exampleRNG)
        (NextNote [exampleNote 1 True 0 0] # replicate 350 TickGame @ [GameEnd]))
   \<and> allNotesProcessed (runGame exampleRNG (initialState exampleRNG)
        (NextNote [exampleNote 1 True 0 0] # replicate 350 TickGame @ [GameEnd]))
   \<and> currentNotes (runGame exampleRNG (initialState exampleRNG)
        (NextNote [exampleNote 1 True 0 0] # replicate 350 TickGame @ [GameEnd])) = []
   \<and> playableNotes (runGame exampleRNG (initialState exampleRNG)
        (NextNote [exampleNote 1 True 0 0] # replicate 350 TickGame @ [GameEnd])) = []
   \<and> RIPNotes (runGame exampleRNG (initialState exampleRNG)
        (NextNote [exampleNote 1 True 0 0] # replicate 350 TickGame @ [GameEnd])) = []"
proof -
  let ?acts = "NextNote [exampleNote 1 True 0 0] # replicate 350 TickGame @ [GameEnd]"
  have a: "list_all spawnsAtTop ?acts"
    by (simp add: list_all_iff exampleNote_def)
  have b: "gameEnd (runGame exampleRNG (initialState exampleRNG) ?acts)"
    by (rule example_run_ends)
  from a b gameEnd_settled [OF a b] show ?thesis by blast
qed

text \<open>
  Why the batches are taken at position 0: a batch spawned one step above the bottom row,
  after the end of the chart, is dropped by the physics step that spawns it, which sets
  \<open>gameEnd\<close> and reports the batch in \<open>RIPNotes\<close>.
\<close>

lemma runGame_late_batch:
  "gameEnd (runGame exampleRNG (initialState exampleRNG)
      [NextNote [exampleNote 1 True 348 0], GameEnd, TickGame,
       NextNote [exampleNote 2 True 349 0]])
   \<and> RIPNotes (runGame exampleRNG (initialState exampleRNG)
      [NextNote [exampleNote 1 True 348 0], GameEnd, TickGame,
       NextNote [exampleNote 2 True 349 0]]) \<noteq> []"
  by (simp add: NextNote_apply_def TickGame_apply_def GameEnd_apply_def notesWithTail_def
        tick_gameEnd tick_currentNotes tick_playableNotes tick_fields exampleNote_def
        updatePositionForGame_def updateNotePosition_def TICK_UNIT_INCREMENT_def BOTTOM_ROW_def
        initialState_def Let_def dsub_def)

section \<open>Wrong presses\<close>

lemma foldl_clickStep_triggered:
  "triggered (foldl (clickStep col) acc ns) \<longleftrightarrow>
     triggered acc \<or> (\<exists>n \<in> set ns. pressable col n)"
  by (induction ns arbitrary: acc) (auto simp: clickStep_def)

lemma ButtonClick_wrong_press:
  "playableNotes (ButtonClick_apply R col s) =
     (if (\<forall>n \<in> set (currentNotes s). \<not> pressable col n)
         \<and> (\<forall>n \<in> set (currentNotes s). \<not> (column n = col \<and> \<not> visual n \<and> tail n \<noteq> None))
      then playableNotes s @ [WrongPress (wrongNote R s)] else playableNotes s)
   \<and> noteCount (ButtonClick_apply R col s) =
     (if (\<forall>n \<in> set (currentNotes s). \<not> pressable col n)
         \<and> (\<forall>n \<in> set (currentNotes s). \<not> (column n = col \<and> \<not> visual n \<and> tail n \<noteq> None))
      then bonusActive s
      else notePressed (foldl (clickStep col)
             \<lparr>triggered = False, acc_scoreGained = scoreGained s,
              notePressed = noteCount s, specialGained = bonusActive s\<rparr> (currentNotes s)))
   \<and> hash (ButtonClick_apply R col s) = RNG_hash R (hash s)"
proof (cases "\<exists>n \<in> set (currentNotes s). pressable col n")
  case True
  then show ?thesis
    by (auto simp: ButtonClick_apply_def Let_def foldl_clickStep_triggered)
next
  case False
  then have "map (\<lambda>note. if pressable col note then note\<lparr>visual := False\<rparr> else note)
                 (currentNotes s) = currentNotes s"
    by (induction "currentNotes s") (auto simp: map_idI)
  with False show ?thesis
    by (auto simp: ButtonClick_apply_def Let_def foldl_clickStep_triggered filter_empty_conv)
qed

text \<open>
  C4. A press of a column with no visual note in the hit window and no live tail should
  append one synthetic note and set \<open>noteCount\<close> to \<open>bonusActive\<close>. The source tests
  for any non-visual note with a tail in the column, dead or not: with the dead remnant of
  a sustain in column 0, a press of column 0 appends nothing and leaves \<open>noteCount\<close> at 5
  where \<open>bonusActive\<close> is 0.
\<close>

theorem ButtonClick_dead_tail:
  "filter (pressable 0) [sustainedNote 1 0 True] = []
   \<and> filter (\<lambda>n. column n = 0 \<and> \<not> visual n
                 \<and> (case tail n of None \<Rightarrow> False | Some t \<Rightarrow> \<not> dead t))
        [sustainedNote 1 0 True] = []
   \<and> playableNotes (ButtonClick_apply exampleRNG 0 (initialState exampleRNG
        \<lparr>noteCount := 5, currentNotes := [sustainedNote 1 0 True]\<rparr>)) = []
   \<and> noteCount (ButtonClick_apply exampleRNG 0 (initialState exampleRNG
        \<lparr>noteCount := 5, currentNotes := [sustainedNote 1 0 True]\<rparr>)) = 5
   \<and> bonusActive (initialState exampleRNG
        \<lparr>noteCount := 5, currentNotes := [sustainedNote 1 0 True]\<rparr>) = 0"
  by (simp add: ButtonClick_apply_def clickStep_def pressable_def sustainedNote_def
        initialState_def Let_def)

end
